theory Spec2Isabelle
  imports Main
begin

section \<open>Go strings helpers\<close>

text \<open>
  Go strings are byte sequences; they are modelled as \<open>string\<close> (a list of 8-bit
  characters).  The helpers below follow the package \<open>strings\<close> of the Go standard
  library, which the repository calls.
\<close>

definition HasPrefix :: "string \<Rightarrow> string \<Rightarrow> bool" where
  \<comment> \<open>\<open>len(s) >= len(prefix) && s[:len(prefix)] == prefix\<close>\<close>
  "HasPrefix s pre = (length pre \<le> length s \<and> take (length pre) s = pre)"

definition HasSuffix :: "string \<Rightarrow> string \<Rightarrow> bool" where
  \<comment> \<open>\<open>len(s) >= len(suffix) && s[len(s)-len(suffix):] == suffix\<close>\<close>
  "HasSuffix s suf = (length suf \<le> length s \<and> drop (length s - length suf) s = suf)"

fun Index :: "string \<Rightarrow> string \<Rightarrow> nat option" where
  \<comment> \<open>index of the first instance of \<open>sep\<close> in \<open>s\<close>; Go's \<open>-1\<close> is \<open>None\<close>\<close>
  "Index [] sep = (if sep = [] then Some 0 else None)"
| "Index (c # t) sep =
     (if HasPrefix (c # t) sep then Some 0 else map_option Suc (Index t sep))"

definition Cut :: "string \<Rightarrow> string \<Rightarrow> string \<times> string \<times> bool" where
  \<comment> \<open>\<open>if i := Index(s, sep); i >= 0 { return s[:i], s[i+len(sep):], true }; return s, "", false\<close>\<close>
  "Cut s sep =
     (case Index s sep of
        Some i \<Rightarrow> (take i s, drop (i + length sep) s, True)
      | None \<Rightarrow> (s, [], False))"

section \<open>Data model (api.go)\<close>

text \<open>The fields of Go's \<open>url.URL\<close> that the repository reads or that parsing fills.\<close>

record URL =
  Scheme :: string
  Opaque :: string
  User :: "string option"
  Host :: string
  Path :: string
  RawQuery :: string
  Fragment :: string

text \<open>\<open>type Mapper func(source string) (string, bool)\<close>\<close>

type_synonym Mapper = "string \<Rightarrow> string \<times> bool"

text \<open>
  \<open>Source\<close> is a resolved source with optional sub-directory.  The field \<open>URL\<close> is a
  pointer in Go; the zero value \<open>Source{}\<close> has a nil URL and an empty \<open>SubDir\<close>.
\<close>

record Source =
  URL :: "URL option"
  SubDir :: string

definition zero_Source :: Source where
  "zero_Source = \<lparr>URL = None, SubDir = []\<rparr>"


text \<open>
  Failures of \<open>Resolve\<close>: \<open>fmt.Errorf("invalid source %q", source)\<close> and
  \<open>fmt.Errorf("unsupported source: %s", u)\<close>, each carrying the value it formats.
\<close>

datatype error = InvalidSource string | UnsupportedSource URL

definition Error :: "(string \<Rightarrow> string) \<Rightarrow> (URL \<Rightarrow> string) \<Rightarrow> error \<Rightarrow> string" where
  \<comment> \<open>the message of the error value; \<open>quote\<close> renders \<open>%q\<close> of a string and \<open>str\<close>
     renders \<open>%s\<close> of a URL (its \<open>String()\<close> method), both of the Go standard library\<close>
  "Error quote str e =
     (case e of
        InvalidSource source \<Rightarrow> ''invalid source '' @ quote source
      | UnsupportedSource u \<Rightarrow> ''unsupported source: '' @ str u)"

text \<open>A Go call either returns or panics.\<close>

datatype 'a outcome = Panic string | Return 'a

section \<open>Regular expressions (package regexp)\<close>

text \<open>
  The patterns of the repository use literals, character classes, \<open>.\<close>, grouping,
  alternation, \<open>?\<close>, \<open>+\<close> and \<open>*\<close>; a leading \<open>^\<close> is handled by the anchored
  matching functions below.  Classes are lists of inclusive byte ranges.  All literals
  and classes of the patterns are ASCII, so matching bytes agrees with Go's matching
  of UTF-8 code points.
\<close>

datatype regexp =
    Zero
  | One
  | Class "(char \<times> char) list"
  | AnyCharNotNL
  | Seq regexp regexp
  | Alt regexp regexp
  | Star regexp

definition in_class :: "(char \<times> char) list \<Rightarrow> char \<Rightarrow> bool" where
  "in_class rs c =
     list_ex (\<lambda>(lo, hi). (of_char lo :: nat) \<le> of_char c \<and> (of_char c :: nat) \<le> of_char hi) rs"

definition Lit :: "char \<Rightarrow> regexp" where
  "Lit c = Class [(c, c)]"

fun Str :: "string \<Rightarrow> regexp" where
  "Str [] = One"
| "Str (c # cs) = Seq (Lit c) (Str cs)"

definition Plus :: "regexp \<Rightarrow> regexp" where
  \<comment> \<open>\<open>r+\<close>\<close>
  "Plus r = Seq r (Star r)"

definition Opt :: "regexp \<Rightarrow> regexp" where
  \<comment> \<open>\<open>r?\<close>\<close>
  "Opt r = Alt r One"

fun nullable :: "regexp \<Rightarrow> bool" where
  "nullable Zero = False"
| "nullable One = True"
| "nullable (Class rs) = False"
| "nullable AnyCharNotNL = False"
| "nullable (Seq r s) = (nullable r \<and> nullable s)"
| "nullable (Alt r s) = (nullable r \<or> nullable s)"
| "nullable (Star r) = True"

fun deriv :: "char \<Rightarrow> regexp \<Rightarrow> regexp" where
  "deriv c Zero = Zero"
| "deriv c One = Zero"
| "deriv c (Class rs) = (if in_class rs c then One else Zero)"
| "deriv c AnyCharNotNL = (if c \<noteq> CHR 0x0A then One else Zero)"
| "deriv c (Seq r s) =
     (if nullable r then Alt (Seq (deriv c r) s) (deriv c s) else Seq (deriv c r) s)"
| "deriv c (Alt r s) = Alt (deriv c r) (deriv c s)"
| "deriv c (Star r) = Seq (deriv c r) (Star r)"

fun longest_prefix :: "regexp \<Rightarrow> string \<Rightarrow> nat option" where
  \<comment> \<open>the length of the longest prefix of the text that the expression matches\<close>
  "longest_prefix r [] = (if nullable r then Some 0 else None)"
| "longest_prefix r (c # t) =
     (case longest_prefix (deriv c r) t of
        Some n \<Rightarrow> Some (Suc n)
      | None \<Rightarrow> if nullable r then Some 0 else None)"

fun MatchString :: "regexp \<Rightarrow> string \<Rightarrow> bool" where
  \<comment> \<open>\<open>re.MatchString(s)\<close> for a pattern without anchors: some substring matches\<close>
  "MatchString r [] = (longest_prefix r [] \<noteq> None)"
| "MatchString r (c # t) = (longest_prefix r (c # t) \<noteq> None \<or> MatchString r t)"

definition MatchString_anchored :: "regexp \<Rightarrow> string \<Rightarrow> bool" where
  \<comment> \<open>\<open>re.MatchString(s)\<close> for the pattern \<open>^r\<close>: a match must start at the
     beginning of the text\<close>
  "MatchString_anchored r s = (longest_prefix r s \<noteq> None)"

definition ReplaceAllString_anchored :: "regexp \<Rightarrow> string \<Rightarrow> string \<Rightarrow> string" where
  \<comment> \<open>\<open>re.ReplaceAllString(src, lit + "$1$2")\<close> for a pattern \<open>^(g1)(g2)\<close>: the only
     possible match starts at offset 0; the two groups are adjacent and cover the
     whole match, so \<open>$1$2\<close> expands to the matched text; the text after the match
     is copied.  Every repetition of the repository's anchored patterns is greedy and
     no choice precedes them, so the leftmost-first match is the longest one.\<close>
  "ReplaceAllString_anchored r src lit =
     (case longest_prefix r src of
        None \<Rightarrow> src
      | Some e \<Rightarrow> lit @ take e src @ drop e src)"

section \<open>Resolvers\<close>

definition File_Match :: "URL \<Rightarrow> bool" where
  \<comment> \<open>\<open>func (f *File) Match\<close>\<close>
  "File_Match source = (Scheme source = ''file'')"

definition Git_Match :: "URL \<Rightarrow> bool" where
  \<comment> \<open>\<open>func (g *Git) Match\<close> of git.go\<close>
  "Git_Match source =
     (Scheme source \<noteq> ''https'' \<and> Scheme source \<noteq> ''git+ssh'' \<and> Scheme source \<noteq> ''git'')"

definition Git_Match_schemes :: "URL \<Rightarrow> bool" where
  \<comment> \<open>\<open>func (g *Git) Match\<close> of the second definition of the Git resolver in the
     repository, the one with \<open>convertGitURL\<close>\<close>
  "Git_Match_schemes source =
     (Scheme source = ''git+https'' \<or> Scheme source = ''git+ssh'' \<or> Scheme source = ''git'')"

definition tarRe :: regexp where
  \<comment> \<open>\<open>(\.tar(\.[a-z]+)?)|(\.tbz|\.tbz2|\.txz|\.tzstd|\.tlz|\.tZ|\.tgz)\<close>\<close>
  "tarRe =
     Alt (Seq (Str ''.tar'') (Opt (Seq (Lit CHR ''.'') (Plus (Class [(CHR ''a'', CHR ''z'')])))))
       (Alt (Str ''.tbz'') (Alt (Str ''.tbz2'') (Alt (Str ''.txz'') (Alt (Str ''.tzstd'')
         (Alt (Str ''.tlz'') (Alt (Str ''.tZ'') (Str ''.tgz'')))))))"

definition TAR_Match :: "URL \<Rightarrow> bool" where
  \<comment> \<open>\<open>func (t *TAR) Match\<close>\<close>
  "TAR_Match source = MatchString tarRe (Path source)"

definition ZIP_Match :: "URL \<Rightarrow> bool" where
  \<comment> \<open>\<open>func (z *ZIP) Match\<close>\<close>
  "ZIP_Match source = HasSuffix (Path source) ''.zip''"

text \<open>
  The interface \<open>Resolver\<close>: the resolver types of the repository and, for any other
  implementation, its \<open>Match\<close> method.  \<open>Git\<close> is the resolver of git.go and
  \<open>Git2\<close> the second definition of it.  \<open>Fetch\<close> performs I/O and is not modelled.
\<close>

datatype Resolver = File | Git | Git2 | TAR | ZIP | Custom "URL \<Rightarrow> bool"

fun Match :: "Resolver \<Rightarrow> URL \<Rightarrow> bool" where
  "Match File u = File_Match u"
| "Match Git u = Git_Match u"
| "Match Git2 u = Git_Match_schemes u"
| "Match TAR u = TAR_Match u"
| "Match ZIP u = ZIP_Match u"
| "Match (Custom m) u = m u"

section \<open>Mappers (mappers.go)\<close>

definition GitHub :: Mapper where
  "GitHub source =
     (if HasPrefix source ''github.com/'' then (''git+https://'' @ source, True)
      else if HasPrefix source ''https://github.com/'' then (''git+'' @ source, True)
      else ([], False))"

definition segment_class :: "(char \<times> char) list" where
  \<comment> \<open>\<open>[a-zA-Z0-9_-]\<close>\<close>
  "segment_class =
     [(CHR ''a'', CHR ''z''), (CHR ''A'', CHR ''Z''), (CHR ''0'', CHR ''9''),
      (CHR ''_'', CHR ''_''), (CHR ''-'', CHR ''-'')]"

definition gitHubOrgRe :: regexp where
  \<comment> \<open>\<open>^([a-zA-Z0-9_-]+/[a-zA-Z0-9_-]+)([?#].*)\<close>, without the leading \<open>^\<close>\<close>
  "gitHubOrgRe =
     Seq (Seq (Plus (Class segment_class)) (Seq (Lit CHR ''/'') (Plus (Class segment_class))))
         (Seq (Class [(CHR ''?'', CHR ''?''), (CHR ''#'', CHR ''#'')]) (Star AnyCharNotNL))"

definition GitHubOrgRepo :: Mapper where
  "GitHubOrgRepo source =
     (if MatchString_anchored gitHubOrgRe source
      then (ReplaceAllString_anchored gitHubOrgRe source ''git+https://github.com/'', True)
      else ([], False))"


section \<open>The filesystem-path mapper\<close>

text \<open>
  What \<open>FilePath\<close> asks of the operating system: \<open>os.UserHomeDir\<close>,
  \<open>filepath.Join\<close>, \<open>filepath.IsAbs\<close>, \<open>filepath.Abs\<close>, \<open>os.Stat\<close> (the
  result is whether the path is a directory) and \<open>filepath.EvalSymlinks\<close>.  A call
  that returns an error in Go is \<open>None\<close>.
\<close>

record OS =
  UserHomeDir :: "string option"
  Join :: "string \<Rightarrow> string \<Rightarrow> string"
  IsAbs :: "string \<Rightarrow> bool"
  Abs :: "string \<Rightarrow> string option"
  Stat :: "string \<Rightarrow> bool option"
  EvalSymlinks :: "string \<Rightarrow> string option"

definition expand_home :: "OS \<Rightarrow> string \<Rightarrow> string option" where
  \<comment> \<open>\<open>if strings.HasPrefix(path, "~/") { home, err := os.UserHomeDir(); ...;
     path = filepath.Join(home, path[2:]) }\<close>\<close>
  "expand_home os path =
     (if HasPrefix path ''~/''
      then (case UserHomeDir os of None \<Rightarrow> None | Some home \<Rightarrow> Some (Join os home (drop 2 path)))
      else Some path)"

definition make_abs :: "OS \<Rightarrow> string \<Rightarrow> string option" where
  \<comment> \<open>\<open>if !filepath.IsAbs(path) { abs, err := filepath.Abs(path); ...; path = abs }\<close>\<close>
  "make_abs os path = (if \<not> IsAbs os path then Abs os path else Some path)"

definition FilePath :: "OS \<Rightarrow> Mapper" where
  "FilePath os source =
     (if source = [] then ([], False)
      else if HasPrefix source ''file://'' then (source, True)
      else case expand_home os source of
        None \<Rightarrow> ([], False)
      | Some path \<Rightarrow>
          (case make_abs os path of
             None \<Rightarrow> ([], False)
           | Some path \<Rightarrow>
               (case Stat os path of
                  None \<Rightarrow> ([], False)
                | Some isDir \<Rightarrow>
                    if \<not> isDir then ([], False)
                    else (case EvalSymlinks os path of
                            None \<Rightarrow> ([], False)
                          | Some path \<Rightarrow> (''file://'' @ path, True)))))"

section \<open>The Fetcher (api.go, default.go)\<close>

record Fetcher =
  mappers :: "Mapper list"
  resolvers :: "Resolver list"

definition New :: "Resolver list \<Rightarrow> Mapper list \<Rightarrow> Fetcher" where
  "New rs ms = \<lparr>mappers = ms, resolvers = rs\<rparr>"

text \<open>
  \<open>Resolve\<close> calls \<open>url.Parse\<close> of the Go standard library; the parser is a parameter
  of the model (\<open>None\<close> is a parse error).  The first loop of \<open>Resolve\<close>:
\<close>

fun map_source :: "(string \<Rightarrow> URL option) \<Rightarrow> Mapper list \<Rightarrow> string \<Rightarrow> string outcome" where
  "map_source parse [] source = Return source"
| "map_source parse (mapper # rest) source =
     (let (mapped, ok) = mapper source in
      if ok then
        (case parse mapped of
           None \<Rightarrow> Panic (''mapper did not produce a valid URL: '' @ mapped)
         | Some _ \<Rightarrow> Return mapped)
      else map_source parse rest source)"

text \<open>The second loop, over the resolvers, with the sub-directory split.\<close>

fun match_source :: "Resolver list \<Rightarrow> URL \<Rightarrow> Resolver option \<times> Source \<times> error option" where
  "match_source [] u = (None, zero_Source, Some (UnsupportedSource u))"
| "match_source (resolver # rest) u =
     (if \<not> Match resolver u then match_source rest u
      else
        (let (base, subdir, ok) = Cut (Path u) ''//'';
             nu = (if ok then u\<lparr>Path := base\<rparr> else u)
         in (Some resolver, \<lparr>URL = Some nu, SubDir = subdir\<rparr>, None)))"

definition Resolve ::
  "(string \<Rightarrow> URL option) \<Rightarrow> Fetcher \<Rightarrow> string \<Rightarrow> (Resolver option \<times> Source \<times> error option) outcome"
where
  "Resolve parse f source =
     (case map_source parse (mappers f) source of
        Panic msg \<Rightarrow> Panic msg
      | Return source \<Rightarrow>
          (case parse source of
             None \<Rightarrow> Return (None, zero_Source, Some (InvalidSource source))
           | Some u \<Rightarrow> Return (match_source (resolvers f) u)))"

definition Default :: "OS \<Rightarrow> Fetcher" where
  \<comment> \<open>the \<open>Default\<close> Fetcher of default.go, with the Git resolver of git.go\<close>
  "Default os = New [File, Git, TAR, ZIP] [GitHub, GitHubOrgRepo, FilePath os]"

definition Default2 :: "OS \<Rightarrow> Fetcher" where
  \<comment> \<open>the same with the second definition of the Git resolver\<close>
  "Default2 os = New [File, Git2, TAR, ZIP] [GitHub, GitHubOrgRepo, FilePath os]"


section \<open>URL parsing (package net/url)\<close>

text \<open>
  A model of \<open>url.Parse\<close> of the Go standard library, used where a claim is
  evaluated on a concrete source string; the general theorems hold for every parser.
  It follows \<open>Parse\<close>, \<open>parse\<close>, \<open>getScheme\<close> and \<open>unescape\<close> of net/url: the
  fragment is cut at the first \<open>#\<close>, control bytes are rejected, the scheme is split
  off and lower-cased, the query is cut at the first \<open>?\<close>, a rootless path after a
  scheme is opaque, a colon in the first segment of a relative path is an error, the
  authority runs from \<open>//\<close> to the next \<open>/\<close>, and the path and the fragment are
  percent-decoded.  The validation and decoding of the authority (port, host
  characters, IPv6 literals, userinfo) are left out: the authority is only split at its
  last \<open>@\<close>.
\<close>

definition stringContainsCTLByte :: "string \<Rightarrow> bool" where
  "stringContainsCTLByte s = list_ex (\<lambda>b. (of_char b :: nat) < 0x20 \<or> (of_char b :: nat) = 0x7f) s"

definition is_alpha :: "char \<Rightarrow> bool" where
  "is_alpha c = in_class [(CHR ''a'', CHR ''z''), (CHR ''A'', CHR ''Z'')] c"

definition is_scheme_extra :: "char \<Rightarrow> bool" where
  "is_scheme_extra c = (in_class [(CHR ''0'', CHR ''9'')] c \<or> c = CHR ''+'' \<or> c = CHR ''-'' \<or> c = CHR ''.'')"

fun getScheme_from :: "string \<Rightarrow> nat \<Rightarrow> string \<Rightarrow> (string \<times> string) option" where
  "getScheme_from rawURL i [] = Some ([], rawURL)"
| "getScheme_from rawURL i (c # cs) =
     (if is_alpha c then getScheme_from rawURL (Suc i) cs
      else if is_scheme_extra c then
        (if i = 0 then Some ([], rawURL) else getScheme_from rawURL (Suc i) cs)
      else if c = CHR '':'' then
        (if i = 0 then None else Some (take i rawURL, drop (Suc i) rawURL))
      else Some ([], rawURL))"

definition getScheme :: "string \<Rightarrow> (string \<times> string) option" where
  "getScheme rawURL = getScheme_from rawURL 0 rawURL"

definition ToLower :: "string \<Rightarrow> string" where
  "ToLower s = map (\<lambda>c. if in_class [(CHR ''A'', CHR ''Z'')] c then char_of (of_char c + (32::nat)) else c) s"

definition ishex :: "char \<Rightarrow> bool" where
  "ishex c = in_class [(CHR ''0'', CHR ''9''), (CHR ''a'', CHR ''f''), (CHR ''A'', CHR ''F'')] c"

definition unhex :: "char \<Rightarrow> nat" where
  "unhex c =
     (if in_class [(CHR ''0'', CHR ''9'')] c then of_char c - of_char CHR ''0''
      else if in_class [(CHR ''a'', CHR ''f'')] c then of_char c - of_char CHR ''a'' + 10
      else if in_class [(CHR ''A'', CHR ''F'')] c then of_char c - of_char CHR ''A'' + 10
      else 0)"

fun unescape :: "string \<Rightarrow> string option" where
  "unescape [] = Some []"
| "unescape (c # cs) =
     (if c = CHR ''%'' then
        (case cs of
           h1 # h2 # rest \<Rightarrow>
             if ishex h1 \<and> ishex h2
             then map_option ((#) (char_of (unhex h1 * 16 + unhex h2))) (unescape rest)
             else None
         | _ \<Rightarrow> None)
      else map_option ((#) c) (unescape cs))"

fun LastIndexByte :: "string \<Rightarrow> char \<Rightarrow> nat option" where
  "LastIndexByte [] c = None"
| "LastIndexByte (x # xs) c =
     (case LastIndexByte xs c of
        Some i \<Rightarrow> Some (Suc i)
      | None \<Rightarrow> if x = c then Some 0 else None)"

definition parseAuthority :: "string \<Rightarrow> string option \<times> string" where
  "parseAuthority authority =
     (case LastIndexByte authority CHR ''@'' of
        None \<Rightarrow> (None, authority)
      | Some i \<Rightarrow> (Some (take i authority), drop (Suc i) authority))"

definition empty_URL :: URL where
  "empty_URL = \<lparr>Scheme = [], Opaque = [], User = None, Host = [], Path = [], RawQuery = [], Fragment = []\<rparr>"

definition split_query :: "string \<Rightarrow> string \<times> string" where
  "split_query rest =
     (if HasSuffix rest ''?'' \<and> count_list rest CHR ''?'' = 1 then (butlast rest, [])
      else (let (before, after, found) = Cut rest ''?'' in (before, after)))"

definition split_authority :: "string \<Rightarrow> string \<Rightarrow> (string option \<times> string) \<times> string" where
  "split_authority scheme rest =
     (if (scheme \<noteq> [] \<or> \<not> HasPrefix rest ''///'') \<and> HasPrefix rest ''//'' then
        (let authority = drop 2 rest in
         case Index authority ''/'' of
           Some i \<Rightarrow> (parseAuthority (take i authority), drop i authority)
         | None \<Rightarrow> (parseAuthority authority, []))
      else ((None, []), rest))"

definition url_parse :: "string \<Rightarrow> URL option" where
  "url_parse rawURL =
     (if stringContainsCTLByte rawURL then None
      else if rawURL = ''*'' then Some (empty_URL\<lparr>Path := ''*''\<rparr>)
      else case getScheme rawURL of
        None \<Rightarrow> None
      | Some (scheme, rest) \<Rightarrow>
          (let scheme = ToLower scheme;
               (rest, query) = split_query rest
           in if \<not> HasPrefix rest ''/'' \<and> scheme \<noteq> []
              then Some (empty_URL\<lparr>Scheme := scheme, Opaque := rest, RawQuery := query\<rparr>)
              else if \<not> HasPrefix rest ''/'' \<and> CHR '':'' \<in> set (fst (Cut rest ''/''))
              then None
              else (let ((user, host), rest) = split_authority scheme rest in
                    case unescape rest of
                      None \<Rightarrow> None
                    | Some path \<Rightarrow>
                        Some \<lparr>Scheme = scheme, Opaque = [], User = user, Host = host,
                              Path = path, RawQuery = query, Fragment = []\<rparr>)))"

definition url_Parse :: "string \<Rightarrow> URL option" where
  "url_Parse rawURL =
     (let (u, frag, found) = Cut rawURL ''#'' in
      case url_parse u of
        None \<Rightarrow> None
      | Some url \<Rightarrow>
          if frag = [] then Some url
          else (case unescape frag of
                  None \<Rightarrow> None
                | Some fragment \<Rightarrow> Some (url\<lparr>Fragment := fragment\<rparr>)))"


section \<open>Notions of the specification\<close>

text \<open>The language of a regular expression, to state what the matcher decides.\<close>

definition conc :: "string set \<Rightarrow> string set \<Rightarrow> string set" where
  "conc A B = {u @ v | u v. u \<in> A \<and> v \<in> B}"

inductive_set star :: "string set \<Rightarrow> string set" for A :: "string set" where
  star_nil: "[] \<in> star A"
| star_step: "u \<in> A \<Longrightarrow> v \<in> star A \<Longrightarrow> u @ v \<in> star A"

fun lang :: "regexp \<Rightarrow> string set" where
  "lang Zero = {}"
| "lang One = {[]}"
| "lang (Class rs) = {[c] | c. in_class rs c}"
| "lang AnyCharNotNL = {[c] | c. c \<noteq> CHR 0x0A}"
| "lang (Seq r s) = conc (lang r) (lang s)"
| "lang (Alt r s) = lang r \<union> lang s"
| "lang (Star r) = star (lang r)"

text \<open>
  The tar extensions: \<open>.tar\<close>, optionally followed by a dot and lowercase letters,
  or one of the short forms.
\<close>

definition lower_letters :: "string \<Rightarrow> bool" where
  "lower_letters l = (l \<noteq> [] \<and> list_all (in_class [(CHR ''a'', CHR ''z'')]) l)"

definition tar_extension :: "string \<Rightarrow> bool" where
  "tar_extension w =
     (w = ''.tar'' \<or> (HasPrefix w ''.tar.'' \<and> lower_letters (drop 5 w)) \<or>
      w \<in> set [''.tbz'', ''.tbz2'', ''.txz'', ''.tzstd'', ''.tlz'', ''.tZ'', ''.tgz''])"

text \<open>A path segment of the org/repo shorthand: one or more of \<open>[A-Za-z0-9_-]\<close>.\<close>

definition is_segment :: "string \<Rightarrow> bool" where
  "is_segment w = (w \<noteq> [] \<and> list_all (in_class segment_class) w)"

text \<open>
  A small file system for the examples: the home directory is \<open>/home/u\<close>, the working
  directory is \<open>/cwd\<close>, \<open>/tmp/d\<close> is a symbolic link to the directory
  \<open>/private/tmp/d\<close>, \<open>/home/u/proj\<close> and \<open>/cwd/sub\<close> are directories and
  \<open>/tmp/f\<close> is a regular file.
\<close>

definition example_os :: OS where
  "example_os =
     \<lparr>UserHomeDir = Some ''/home/u'',
      Join = (\<lambda>a b. a @ ''/'' @ b),
      IsAbs = (\<lambda>p. HasPrefix p ''/''),
      Abs = (\<lambda>p. Some (''/cwd/'' @ (if HasPrefix p ''./'' then drop 2 p else p))),
      Stat = (\<lambda>p. if p \<in> set [''/tmp/d'', ''/private/tmp/d'', ''/home/u/proj'', ''/cwd/sub'']
                   then Some True
                   else if p = ''/tmp/f'' then Some False else None),
      EvalSymlinks = (\<lambda>p. if p = ''/tmp/d'' then Some ''/private/tmp/d''
                           else if p \<in> set [''/private/tmp/d'', ''/home/u/proj'', ''/cwd/sub'', ''/tmp/f'']
                           then Some p else None)\<rparr>"


section \<open>Lemmas\<close>

subsection \<open>The matcher decides the language\<close>

lemma nullable_lang: "nullable r \<longleftrightarrow> [] \<in> lang r"
  by (induction r) (auto simp: conc_def intro: star.star_nil)

lemma conc_cons:
  "c # w \<in> conc A B \<longleftrightarrow>
     (\<exists>u v. w = u @ v \<and> c # u \<in> A \<and> v \<in> B) \<or> ([] \<in> A \<and> c # w \<in> B)"
proof
  assume "c # w \<in> conc A B"
  then obtain u v where uv: "c # w = u @ v" "u \<in> A" "v \<in> B"
    by (auto simp: conc_def)
  show "(\<exists>u v. w = u @ v \<and> c # u \<in> A \<and> v \<in> B) \<or> ([] \<in> A \<and> c # w \<in> B)"
  proof (cases u)
    case Nil
    with uv show ?thesis by simp
  next
    case (Cons a u')
    with uv have "w = u' @ v" "c # u' \<in> A" by auto
    with uv show ?thesis by blast
  qed
next
  assume "(\<exists>u v. w = u @ v \<and> c # u \<in> A \<and> v \<in> B) \<or> ([] \<in> A \<and> c # w \<in> B)"
  then show "c # w \<in> conc A B"
  proof
    assume "\<exists>u v. w = u @ v \<and> c # u \<in> A \<and> v \<in> B"
    then obtain u v where "w = u @ v" "c # u \<in> A" "v \<in> B" by blast
    then have "c # w = (c # u) @ v" by simp
    with \<open>c # u \<in> A\<close> \<open>v \<in> B\<close> show ?thesis unfolding conc_def by blast
  next
    assume "[] \<in> A \<and> c # w \<in> B"
    then have "c # w = [] @ (c # w)" "[] \<in> A" "c # w \<in> B" by simp_all
    then show ?thesis unfolding conc_def by blast
  qed
qed

lemma star_cons_split:
  assumes "x \<in> star A" and "x = c # w"
  shows "\<exists>u v. w = u @ v \<and> c # u \<in> A \<and> v \<in> star A"
  using assms
proof (induction arbitrary: w rule: star.induct)
  case star_nil
  then show ?case by simp
next
  case (star_step u v)
  show ?case
  proof (cases u)
    case Nil
    with star_step show ?thesis by simp
  next
    case (Cons a u')
    with star_step.prems have "a = c" "w = u' @ v" by auto
    with Cons star_step.hyps show ?thesis by blast
  qed
qed

lemma star_cons:
  "c # w \<in> star A \<longleftrightarrow> (\<exists>u v. w = u @ v \<and> c # u \<in> A \<and> v \<in> star A)"
proof
  assume "c # w \<in> star A"
  then show "\<exists>u v. w = u @ v \<and> c # u \<in> A \<and> v \<in> star A"
    using star_cons_split by blast
next
  assume "\<exists>u v. w = u @ v \<and> c # u \<in> A \<and> v \<in> star A"
  then obtain u v where "w = u @ v" "c # u \<in> A" "v \<in> star A" by blast
  then show "c # w \<in> star A"
    using star.star_step [of "c # u" A v] by simp
qed

lemma deriv_lang: "w \<in> lang (deriv c r) \<longleftrightarrow> c # w \<in> lang r"
proof (induction r arbitrary: w)
  case (Seq r s)
  then show ?case by (auto simp: conc_cons nullable_lang) (auto simp: conc_def)
next
  case (Star r)
  then show ?case by (auto simp: star_cons) (auto simp: conc_def)
qed auto

lemma longest_prefix_None:
  "longest_prefix r s = None \<longleftrightarrow> (\<forall>n \<le> length s. take n s \<notin> lang r)"
proof (induction s arbitrary: r)
  case Nil
  then show ?case by (simp add: nullable_lang)
next
  case (Cons c t)
  have "(\<forall>n \<le> length (c # t). take n (c # t) \<notin> lang r) \<longleftrightarrow>
        [] \<notin> lang r \<and> (\<forall>m \<le> length t. take m t \<notin> lang (deriv c r))"
    (is "?L \<longleftrightarrow> ?R")
  proof
    assume L: ?L
    have "[] \<notin> lang r" using L [rule_format, of 0] by simp
    moreover have "take m t \<notin> lang (deriv c r)" if "m \<le> length t" for m
      using L [rule_format, of "Suc m"] that by (simp add: deriv_lang)
    ultimately show ?R by blast
  next
    assume R: ?R
    show ?L
    proof (intro allI impI)
      fix n assume "n \<le> length (c # t)"
      then show "take n (c # t) \<notin> lang r"
        using R by (cases n) (auto simp: deriv_lang)
    qed
  qed
  moreover have "longest_prefix r (c # t) = None \<longleftrightarrow>
      longest_prefix (deriv c r) t = None \<and> \<not> nullable r"
    by (simp split: option.splits)
  ultimately show ?case
    using Cons.IH [of "deriv c r"] by (simp add: nullable_lang conj_commute)
qed

lemma matches_prefix_iff:
  "longest_prefix r s \<noteq> None \<longleftrightarrow> (\<exists>p t. s = p @ t \<and> p \<in> lang r)"
proof
  assume "longest_prefix r s \<noteq> None"
  then obtain n where "n \<le> length s" "take n s \<in> lang r"
    by (auto simp: longest_prefix_None)
  then have "s = take n s @ drop n s" by simp
  with \<open>take n s \<in> lang r\<close> show "\<exists>p t. s = p @ t \<and> p \<in> lang r" by blast
next
  assume "\<exists>p t. s = p @ t \<and> p \<in> lang r"
  then obtain p t where "s = p @ t" "p \<in> lang r" by blast
  then have "length p \<le> length s" "take (length p) s \<in> lang r" by simp_all
  then show "longest_prefix r s \<noteq> None"
    by (auto simp: longest_prefix_None)
qed

lemma MatchString_iff:
  "MatchString r s \<longleftrightarrow> (\<exists>pre w post. s = pre @ w @ post \<and> w \<in> lang r)"
proof (induction s)
  case Nil
  then show ?case by (simp add: nullable_lang)
next
  case (Cons c t)
  show ?case
  proof
    assume "MatchString r (c # t)"
    then consider "longest_prefix r (c # t) \<noteq> None" | "MatchString r t" by auto
    then show "\<exists>pre w post. c # t = pre @ w @ post \<and> w \<in> lang r"
    proof cases
      case 1
      then obtain p q where "c # t = p @ q" "p \<in> lang r"
        using matches_prefix_iff by blast
      then have "c # t = [] @ p @ q" by simp
      with \<open>p \<in> lang r\<close> show ?thesis by blast
    next
      case 2
      with Cons obtain pre w post where "t = pre @ w @ post" "w \<in> lang r" by blast
      then have "c # t = (c # pre) @ w @ post" by simp
      with \<open>w \<in> lang r\<close> show ?thesis by blast
    qed
  next
    assume "\<exists>pre w post. c # t = pre @ w @ post \<and> w \<in> lang r"
    then obtain pre w post where e: "c # t = pre @ w @ post" and w: "w \<in> lang r" by blast
    show "MatchString r (c # t)"
    proof (cases pre)
      case Nil
      with e w have "longest_prefix r (c # t) \<noteq> None"
        using matches_prefix_iff [of r "c # t"] by auto
      then show ?thesis by simp
    next
      case (Cons a pre')
      with e have "t = pre' @ w @ post" by simp
      with w Cons.IH have "MatchString r t" by blast
      then show ?thesis by simp
    qed
  qed
qed

subsection \<open>Languages of the building blocks\<close>

lemma in_class_single: "in_class [(c, c)] x \<longleftrightarrow> x = c"
  by (auto simp: in_class_def)

lemma lang_Lit: "lang (Lit c) = {[c]}"
  by (auto simp: Lit_def in_class_single)

lemma conc_single: "conc {u} {v} = {u @ v}"
  by (auto simp: conc_def)

lemma lang_Str: "lang (Str s) = {s}"
  by (induction s) (simp_all add: lang_Lit conc_single)

lemma lang_Opt: "lang (Opt r) = lang r \<union> {[]}"
  by (simp add: Opt_def)

lemma star_chars:
  "w \<in> star {[c] | c. P c} \<longleftrightarrow> list_all P w"
proof
  assume "w \<in> star {[c] | c. P c}"
  then show "list_all P w"
    by (induction rule: star.induct) auto
next
  assume "list_all P w"
  then show "w \<in> star {[c] | c. P c}"
  proof (induction w)
    case Nil
    then show ?case by (simp add: star.star_nil)
  next
    case (Cons a w)
    then have "[a] \<in> {[c] | c. P c}" "w \<in> star {[c] | c. P c}" by auto
    then have "[a] @ w \<in> star {[c] | c. P c}" by (rule star.star_step)
    then show ?case by simp
  qed
qed

lemma lang_Plus_Class:
  "lang (Plus (Class rs)) = {w. w \<noteq> [] \<and> list_all (in_class rs) w}"
proof (rule set_eqI)
  fix w
  show "w \<in> lang (Plus (Class rs)) \<longleftrightarrow> w \<in> {w. w \<noteq> [] \<and> list_all (in_class rs) w}"
  proof (cases w)
    case Nil
    then show ?thesis by (auto simp: Plus_def conc_def)
  next
    case (Cons a v)
    then show ?thesis
      by (auto simp: Plus_def conc_cons star_chars)
  qed
qed

lemma lang_Star_Any: "lang (Star AnyCharNotNL) = {w. list_all (\<lambda>c. c \<noteq> CHR 0x0A) w}"
  by (auto simp: star_chars)

lemma HasPrefix_append: "HasPrefix s pre \<longleftrightarrow> (\<exists>t. s = pre @ t)"
proof
  assume "HasPrefix s pre"
  then have "s = pre @ drop (length pre) s"
    by (metis HasPrefix_def append_take_drop_id)
  then show "\<exists>t. s = pre @ t" ..
next
  assume "\<exists>t. s = pre @ t"
  then show "HasPrefix s pre" by (auto simp: HasPrefix_def)
qed

lemma concI: "u \<in> A \<Longrightarrow> v \<in> B \<Longrightarrow> u @ v \<in> conc A B"
  unfolding conc_def by blast

lemma in_class_two: "in_class [(a, a), (b, b)] c \<longleftrightarrow> c = a \<or> c = b"
  by (auto simp: in_class_def)

lemma in_class_query_mark:
  "in_class [(CHR ''?'', CHR ''?''), (CHR ''#'', CHR ''#'')] c \<longleftrightarrow> c = CHR ''?'' \<or> c = CHR ''#''"
  by (rule in_class_two)

lemma lang_tarRe_eq:
  "lang tarRe =
     conc {''.tar''} (conc {''.''} {l. lower_letters l} \<union> {[]}) \<union>
     ({''.tbz''} \<union> ({''.tbz2''} \<union> ({''.txz''} \<union> ({''.tzstd''} \<union>
       ({''.tlz''} \<union> ({''.tZ''} \<union> {''.tgz''}))))))"
  unfolding tarRe_def lang.simps lang_Str lang_Opt lang_Lit lang_Plus_Class lower_letters_def
  by (rule refl)

lemma conc_tar_dot:
  "w \<in> conc {''.tar''} (conc {''.''} L \<union> {[]}) \<longleftrightarrow>
     w = ''.tar'' \<or> (\<exists>l. w = ''.tar.'' @ l \<and> l \<in> L)"
  unfolding conc_def by auto

lemma tar_dot_suffix:
  "HasPrefix w ''.tar.'' \<and> lower_letters (drop 5 w) \<longleftrightarrow>
     (\<exists>l. w = ''.tar.'' @ l \<and> lower_letters l)"
  unfolding HasPrefix_append by auto

lemma lang_tarRe: "w \<in> lang tarRe \<longleftrightarrow> tar_extension w"
  unfolding lang_tarRe_eq tar_extension_def Un_iff conc_tar_dot tar_dot_suffix
  by simp

lemma TAR_Match_iff:
  "TAR_Match u \<longleftrightarrow> (\<exists>pre w post. Path u = pre @ w @ post \<and> tar_extension w)"
  by (simp add: TAR_Match_def MatchString_iff lang_tarRe)

lemma lang_gitHubOrgRe_eq:
  "lang gitHubOrgRe =
     conc (conc {w. is_segment w} (conc {''/''} {w. is_segment w}))
          (conc {[c] | c. c = CHR ''?'' \<or> c = CHR ''#''} {w. list_all (\<lambda>c. c \<noteq> CHR 0x0A) w})"
proof -
  have "star {[c] | c. c \<noteq> CHR 0x0A} = {w. list_all (\<lambda>c. c \<noteq> CHR 0x0A) w}"
    using star_chars [of _ "\<lambda>c. c \<noteq> CHR 0x0A"] by blast
  then show ?thesis
    by (simp only: gitHubOrgRe_def lang.simps lang_Lit lang_Plus_Class is_segment_def
        in_class_query_mark)
qed

lemma mem_lang_gitHubOrgRe:
  "p \<in> lang gitHubOrgRe \<longleftrightarrow>
     (\<exists>org repo c rest. p = org @ ''/'' @ repo @ c # rest \<and> is_segment org \<and> is_segment repo \<and>
        (c = CHR ''?'' \<or> c = CHR ''#'') \<and> list_all (\<lambda>c. c \<noteq> CHR 0x0A) rest)"
  (is "?L \<longleftrightarrow> ?R")
proof
  assume ?L
  then obtain a b where p: "p = a @ b"
    and a: "a \<in> conc {w. is_segment w} (conc {''/''} {w. is_segment w})"
    and b: "b \<in> conc {[c] | c. c = CHR ''?'' \<or> c = CHR ''#''}
                  {w. list_all (\<lambda>c. c \<noteq> CHR 0x0A) w}"
    unfolding lang_gitHubOrgRe_eq conc_def [of "conc _ _" "conc _ _"] by blast
  from a obtain org repo where "a = org @ ''/'' @ repo" "is_segment org" "is_segment repo"
    by (auto simp: conc_def)
  moreover from b obtain c rest where "b = c # rest" "c = CHR ''?'' \<or> c = CHR ''#''"
    "list_all (\<lambda>c. c \<noteq> CHR 0x0A) rest"
    by (auto simp: conc_def)
  ultimately show ?R using p by auto
next
  assume ?R
  then obtain org repo c rest where p: "p = org @ ''/'' @ repo @ c # rest"
    and s: "is_segment org" "is_segment repo" and c: "c = CHR ''?'' \<or> c = CHR ''#''"
    and r: "list_all (\<lambda>c. c \<noteq> CHR 0x0A) rest" by blast
  have 1: "org @ ''/'' @ repo \<in> conc {w. is_segment w} (conc {''/''} {w. is_segment w})"
    using s by (intro concI) simp_all
  have "[c] \<in> {[c] | c. c = CHR ''?'' \<or> c = CHR ''#''}"
    using c by blast
  moreover have "rest \<in> {w. list_all (\<lambda>c. c \<noteq> CHR 0x0A) w}"
    using r by simp
  ultimately have 2: "[c] @ rest \<in> conc {[c] | c. c = CHR ''?'' \<or> c = CHR ''#''}
                  {w. list_all (\<lambda>c. c \<noteq> CHR 0x0A) w}"
    by (rule concI)
  have "(org @ ''/'' @ repo) @ ([c] @ rest) \<in> lang gitHubOrgRe"
    unfolding lang_gitHubOrgRe_eq using 1 2 by (rule concI)
  with p show ?L by simp
qed

lemma Index_Some:
  "Index s sep = Some i \<Longrightarrow>
     i + length sep \<le> length s \<and> s = take i s @ sep @ drop (i + length sep) s \<and>
     (\<forall>p q. s = p @ sep @ q \<longrightarrow> i \<le> length p)"
proof (induction s arbitrary: i)
  case Nil
  then show ?case by (simp split: if_splits)
next
  case (Cons c t)
  show ?case
  proof (cases "HasPrefix (c # t) sep")
    case True
    with Cons.prems have "i = 0" by simp
    moreover from True obtain r where r: "c # t = sep @ r"
      unfolding HasPrefix_append by blast
    then have "drop (length sep) (c # t) = r" "length sep \<le> length (c # t)"
      by (metis append_eq_conv_conj, metis length_append le_add1)
    ultimately show ?thesis using r by simp
  next
    case False
    with Cons.prems obtain j where j: "Index t sep = Some j" and i: "i = Suc j"
      by auto
    from Cons.IH [OF j] have ih: "j + length sep \<le> length t"
      "t = take j t @ sep @ drop (j + length sep) t"
      "\<forall>p q. t = p @ sep @ q \<longrightarrow> j \<le> length p" by blast+
    have "i \<le> length p" if "c # t = p @ sep @ q" for p q
    proof (cases p)
      case Nil
      with that have "HasPrefix (c # t) sep" unfolding HasPrefix_append by auto
      with False show ?thesis by simp
    next
      case (Cons a p')
      with that have "t = p' @ sep @ q" by simp
      with ih(3) have "j \<le> length p'" by blast
      with Cons i show ?thesis by simp
    qed
    moreover have "c # t = take i (c # t) @ sep @ drop (i + length sep) (c # t)"
      using ih(2) i by simp
    ultimately show ?thesis using ih(1) i by simp
  qed
qed

lemma Index_None: "Index s sep = None \<Longrightarrow> s \<noteq> p @ sep @ q"
proof (induction s arbitrary: p)
  case Nil
  then show ?case by (auto split: if_splits)
next
  case (Cons c t)
  then have np: "\<not> HasPrefix (c # t) sep" and n: "Index t sep = None"
    by (auto split: if_splits)
  show ?case
  proof (cases p)
    case Nil
    with np show ?thesis unfolding HasPrefix_append by auto
  next
    case (Cons a p')
    with Cons.IH [OF n, of p'] show ?thesis by simp
  qed
qed

lemma Cut_found:
  assumes "Cut s sep = (before, after, True)"
  shows "s = before @ sep @ after \<and> (\<forall>p q. s = p @ sep @ q \<longrightarrow> length before \<le> length p)"
proof -
  from assms obtain i where i: "Index s sep = Some i" and b: "before = take i s"
    and a: "after = drop (i + length sep) s"
    by (auto simp: Cut_def split: option.splits)
  from Index_Some [OF i] have "i + length sep \<le> length s"
    "s = take i s @ sep @ drop (i + length sep) s"
    "\<forall>p q. s = p @ sep @ q \<longrightarrow> i \<le> length p" by blast+
  moreover from this have "length before = i" using b by simp
  ultimately show ?thesis using a b by simp
qed

lemma Cut_not_found:
  assumes "Cut s sep = (before, after, False)"
  shows "before = s \<and> after = [] \<and> (\<forall>p q. s \<noteq> p @ sep @ q)"
proof -
  from assms have "Index s sep = None" "before = s" "after = []"
    by (auto simp: Cut_def split: option.splits)
  then show ?thesis using Index_None by blast
qed

subsection \<open>The two loops of Resolve\<close>

lemma map_source_none:
  "\<forall>m \<in> set ms. \<not> snd (m source) \<Longrightarrow> map_source parse ms source = Return source"
  by (induction ms) (auto split: prod.splits)

lemma map_source_first:
  assumes "\<forall>m' \<in> set pre. \<not> snd (m' source)" and "snd (m source)"
  shows "map_source parse (pre @ m # post) source =
           (case parse (fst (m source)) of
              None \<Rightarrow> Panic (''mapper did not produce a valid URL: '' @ fst (m source))
            | Some u \<Rightarrow> Return (fst (m source)))"
  using assms by (induction pre) (auto split: prod.splits option.splits)

lemma match_source_none:
  "\<forall>r \<in> set rs. \<not> Match r u \<Longrightarrow> match_source rs u = (None, zero_Source, Some (UnsupportedSource u))"
  by (induction rs) auto

lemma match_source_first:
  assumes "\<forall>r' \<in> set pre. \<not> Match r' u" and "Match r u"
  shows "match_source (pre @ r # post) u = match_source [r] u"
  using assms by (induction pre) auto

lemma match_source_single:
  "Match r u \<Longrightarrow>
   match_source [r] u =
     (Some r,
      \<lparr>URL = Some (if snd (snd (Cut (Path u) ''//'')) then u\<lparr>Path := fst (Cut (Path u) ''//'')\<rparr> else u),
       SubDir = fst (snd (Cut (Path u) ''//''))\<rparr>,
      None)"
  by (simp split: prod.splits)

lemma match_source_find:
  "fst (match_source rs u) = find (\<lambda>r. Match r u) rs"
  by (induction rs) (auto split: prod.splits)

lemma match_source_cases:
  "match_source rs u = (None, zero_Source, Some (UnsupportedSource u)) \<and> (\<forall>r \<in> set rs. \<not> Match r u) \<or>
   (\<exists>pre r post. rs = pre @ r # post \<and> (\<forall>r' \<in> set pre. \<not> Match r' u) \<and> Match r u \<and>
      match_source rs u = match_source [r] u)"
proof (cases "\<forall>r \<in> set rs. \<not> Match r u")
  case True
  then show ?thesis by (simp add: match_source_none)
next
  case False
  then obtain pre r post where "rs = pre @ r # post" "\<forall>r' \<in> set pre. \<not> Match r' u" "Match r u"
    using split_list_first_prop [of rs "\<lambda>r. Match r u"] by blast
  then show ?thesis using match_source_first by blast
qed

section \<open>The GitHub mappers\<close>

text \<open>
  C4 (as amended).  For every input beginning with \<open>github.com/\<close> (no scheme), the GitHub
  mapper reports a match and returns \<open>git+https://github.com/\<close> followed by the same
  rest of the path, query and fragment, verbatim.  The scheme of the output is
  \<open>git+https\<close>, not \<open>https\<close>, as the counterexample shows.
\<close>

theorem GitHub_schemeless:
  "GitHub (''github.com/'' @ rest) = (''git+https://github.com/'' @ rest, True)"
  by (simp add: GitHub_def HasPrefix_def)

theorem GitHub_schemeless_witness:
  "GitHub ''github.com/user/repo?ref=main#section'' =
     (''git+https://github.com/user/repo?ref=main#section'', True)"
  using GitHub_schemeless [of "''user/repo?ref=main#section''"] by simp

theorem GitHub_schemeless_counterexample:
  "GitHub ''github.com/user/repo'' \<noteq> (''https://github.com/user/repo'', True)"
  by (simp add: GitHub_def HasPrefix_def)

lemma MatchString_anchored_iff:
  "MatchString_anchored r s \<longleftrightarrow> (\<exists>p t. s = p @ t \<and> p \<in> lang r)"
  by (simp only: MatchString_anchored_def matches_prefix_iff)

lemma GitHubOrgRepo_match:
  "snd (GitHubOrgRepo s) \<Longrightarrow> GitHubOrgRepo s = (''git+https://github.com/'' @ s, True)"
  by (auto simp: GitHubOrgRepo_def MatchString_anchored_def ReplaceAllString_anchored_def
      split: if_splits)

lemma GitHubOrgRepo_no_match: "\<not> snd (GitHubOrgRepo s) \<Longrightarrow> GitHubOrgRepo s = ([], False)"
  by (auto simp: GitHubOrgRepo_def split: if_splits)

lemma GitHubOrgRepo_match_form:
  "snd (GitHubOrgRepo s) \<longleftrightarrow>
     (\<exists>org repo c rest. s = org @ ''/'' @ repo @ c # rest \<and> is_segment org \<and> is_segment repo \<and>
        (c = CHR ''?'' \<or> c = CHR ''#''))"
  (is "?L \<longleftrightarrow> ?R")
proof
  assume ?L
  then obtain p t where "s = p @ t" "p \<in> lang gitHubOrgRe"
    by (auto simp: GitHubOrgRepo_def MatchString_anchored_iff split: if_splits)
  then obtain org repo c rest where "s = (org @ ''/'' @ repo @ c # rest) @ t"
    "is_segment org" "is_segment repo" "c = CHR ''?'' \<or> c = CHR ''#''"
    unfolding mem_lang_gitHubOrgRe by blast
  then have "s = org @ ''/'' @ repo @ c # (rest @ t)" by simp
  with \<open>is_segment org\<close> \<open>is_segment repo\<close> \<open>c = CHR ''?'' \<or> c = CHR ''#''\<close>
  show ?R by blast
next
  assume ?R
  then obtain org repo c rest where s: "s = org @ ''/'' @ repo @ c # rest"
    and g: "is_segment org" "is_segment repo" "c = CHR ''?'' \<or> c = CHR ''#''" by blast
  from g have "org @ ''/'' @ repo @ c # [] \<in> lang gitHubOrgRe"
    unfolding mem_lang_gitHubOrgRe by (intro exI [of _ org] exI [of _ repo] exI [of _ c] exI [of _ "[]"]) simp
  moreover have "s = (org @ ''/'' @ repo @ c # []) @ rest" using s by simp
  ultimately have "MatchString_anchored gitHubOrgRe s"
    unfolding MatchString_anchored_iff by blast
  then show ?L by (simp add: GitHubOrgRepo_def)
qed

lemma first_separator:
  assumes "u @ x # r = v @ y # r'" and "x \<notin> set v" and "y \<notin> set u"
  shows "u = v \<and> x = y \<and> r = r'"
  using assms
proof (induction u arbitrary: v)
  case Nil
  then show ?case by (cases v) auto
next
  case (Cons a u)
  then show ?case by (cases v) auto
qed

lemma segment_chars:
  assumes "is_segment w"
  shows "w \<noteq> []" "CHR ''/'' \<notin> set w" "CHR ''?'' \<notin> set w" "CHR ''#'' \<notin> set w"
    "CHR ''+'' \<notin> set w" "CHR '':'' \<notin> set w"
  using assms by (auto simp: is_segment_def list_all_iff in_class_def segment_class_def)

lemma GitHubOrgRepo_match_Cons:
  "snd (GitHubOrgRepo s) \<longleftrightarrow>
     (\<exists>org repo c rest. s = org @ CHR ''/'' # repo @ c # rest \<and> is_segment org \<and> is_segment repo \<and>
        (c = CHR ''?'' \<or> c = CHR ''#''))"
  using GitHubOrgRepo_match_form [of s] by simp


lemma GitHubOrgRepo_three_segments_Cons:
  assumes "is_segment a" "is_segment b"
  shows "\<not> snd (GitHubOrgRepo (a @ CHR ''/'' # b @ CHR ''/'' # extra))"
proof
  assume "snd (GitHubOrgRepo (a @ CHR ''/'' # b @ CHR ''/'' # extra))"
  then obtain org repo c rest
    where e: "a @ CHR ''/'' # (b @ CHR ''/'' # extra) = org @ CHR ''/'' # (repo @ c # rest)"
      and g: "is_segment org" "is_segment repo" "c = CHR ''?'' \<or> c = CHR ''#''"
    unfolding GitHubOrgRepo_match_Cons by blast
  have "a = org \<and> CHR ''/'' = CHR ''/'' \<and> b @ CHR ''/'' # extra = repo @ c # rest"
    using e segment_chars(2) [OF g(1)] segment_chars(2) [OF assms(1)] by (rule first_separator)
  then have e2: "b @ CHR ''/'' # extra = repo @ c # rest" by blast
  have "c \<notin> set b"
    using segment_chars(3,4) [OF assms(2)] g(3) by blast
  with e2 segment_chars(2) [OF g(2)] have "b = repo \<and> CHR ''/'' = c \<and> extra = rest"
    by (rule first_separator)
  with g(3) show False by blast
qed


lemma GitHubOrgRepo_three_segments:
  assumes "is_segment a" "is_segment b"
  shows "GitHubOrgRepo (a @ ''/'' @ b @ ''/'' @ extra) = ([], False)"
  using GitHubOrgRepo_three_segments_Cons [OF assms, of extra]
  by (simp add: GitHubOrgRepo_no_match)


lemma GitHubOrgRepo_bare_word:
  assumes "is_segment w" "tail = [] \<or> hd tail = CHR ''?'' \<or> hd tail = CHR ''#''"
  shows "GitHubOrgRepo (w @ tail) = ([], False)"
proof (rule GitHubOrgRepo_no_match, rule notI)
  assume "snd (GitHubOrgRepo (w @ tail))"
  then obtain org repo c rest where e: "w @ tail = org @ CHR ''/'' # (repo @ c # rest)"
    and g: "is_segment org" "is_segment repo" "c = CHR ''?'' \<or> c = CHR ''#''"
    unfolding GitHubOrgRepo_match_Cons by blast
  show False
  proof (cases tail)
    case Nil
    have "CHR ''/'' \<in> set (org @ CHR ''/'' # (repo @ c # rest))" by simp
    then have "CHR ''/'' \<in> set (w @ tail)" by (simp only: e)
    then have "CHR ''/'' \<in> set w" by (simp add: Nil)
    with segment_chars(2) [OF assms(1)] show False by blast
  next
    case (Cons d tail')
    with assms(2) have d: "d = CHR ''?'' \<or> d = CHR ''#''" by simp
    have eq: "w @ d # tail' = org @ CHR ''/'' # (repo @ c # rest)"
      using e by (simp only: Cons)
    have "d \<notin> set org" using d segment_chars(3,4) [OF g(1)] by blast
    with eq have "w = org \<and> d = CHR ''/'' \<and> tail' = repo @ c # rest"
      using segment_chars(2) [OF assms(1)] by (rule first_separator)
    with d show False by blast
  qed
qed

lemma GitHubOrgRepo_no_segment:
  assumes "tail = [] \<or> hd tail = CHR ''?'' \<or> hd tail = CHR ''#''"
  shows "GitHubOrgRepo tail = ([], False)"
proof (rule GitHubOrgRepo_no_match, rule notI)
  assume "snd (GitHubOrgRepo tail)"
  then obtain org repo c rest where e: "tail = org @ CHR ''/'' # (repo @ c # rest)"
    and g: "is_segment org"
    unfolding GitHubOrgRepo_match_Cons by blast
  from segment_chars(1) [OF g] obtain x org' where o: "org = x # org'" by (cases org) blast+
  with e have "hd tail = x" "tail \<noteq> []" by simp_all
  moreover from o segment_chars(3,4) [OF g] have "x \<noteq> CHR ''?''" "x \<noteq> CHR ''#''" by auto
  ultimately show False using assms by blast
qed


text \<open>
  C5 (as amended).  The GitHubOrgRepo mapper matches every input of the form
  \<open><org>/<repo>\<close> followed by \<open>?query\<close> or \<open>#fragment\<close>, each segment matching
  \<open>[A-Za-z0-9_-]+\<close>, and maps it to \<open>git+https://github.com/\<close> followed by the
  input, so the query string and the fragment are copied byte for byte.  It matches only
  inputs that begin with exactly two such segments, followed by nothing, \<open>?\<close> or
  \<open>#\<close>: inputs with three or more segments, with no segment, or a bare word do not
  match.  The scheme of the output is \<open>git+https\<close>, not \<open>https\<close>, as the
  counterexample shows.
\<close>


theorem GitHubOrgRepo_shorthand:
  "(is_segment org \<and> is_segment repo \<and> (c = CHR ''?'' \<or> c = CHR ''#'') \<longrightarrow>
      GitHubOrgRepo (org @ ''/'' @ repo @ c # rest) =
        (''git+https://github.com/'' @ org @ ''/'' @ repo @ c # rest, True)) \<and>
   (snd (GitHubOrgRepo s) \<longrightarrow>
      (\<exists>org repo tail. s = org @ ''/'' @ repo @ tail \<and> is_segment org \<and> is_segment repo \<and>
         (tail = [] \<or> hd tail = CHR ''?'' \<or> hd tail = CHR ''#'')) \<and>
      fst (GitHubOrgRepo s) = ''git+https://github.com/'' @ s) \<and>
   (is_segment a \<and> is_segment b \<longrightarrow> GitHubOrgRepo (a @ ''/'' @ b @ ''/'' @ extra) = ([], False)) \<and>
   (tail = [] \<or> hd tail = CHR ''?'' \<or> hd tail = CHR ''#'' \<longrightarrow>
      GitHubOrgRepo tail = ([], False) \<and>
      (is_segment w \<longrightarrow> GitHubOrgRepo (w @ tail) = ([], False)))"
proof (intro conjI impI)
  assume g: "is_segment org \<and> is_segment repo \<and> (c = CHR ''?'' \<or> c = CHR ''#'')"
  then have "snd (GitHubOrgRepo (org @ ''/'' @ repo @ c # rest))"
    unfolding GitHubOrgRepo_match_form by blast
  then show "GitHubOrgRepo (org @ ''/'' @ repo @ c # rest) =
        (''git+https://github.com/'' @ org @ ''/'' @ repo @ c # rest, True)"
    by (rule GitHubOrgRepo_match)
next
  assume m: "snd (GitHubOrgRepo s)"
  then obtain org repo c rest where "s = org @ ''/'' @ repo @ c # rest"
    "is_segment org" "is_segment repo" "c = CHR ''?'' \<or> c = CHR ''#''"
    unfolding GitHubOrgRepo_match_form by blast
  then have "s = org @ ''/'' @ repo @ (c # rest) \<and> is_segment org \<and> is_segment repo \<and>
         (c # rest = [] \<or> hd (c # rest) = CHR ''?'' \<or> hd (c # rest) = CHR ''#'')" by simp
  then show "\<exists>org repo tail. s = org @ ''/'' @ repo @ tail \<and> is_segment org \<and> is_segment repo \<and>
         (tail = [] \<or> hd tail = CHR ''?'' \<or> hd tail = CHR ''#'')" by blast
  from m show "fst (GitHubOrgRepo s) = ''git+https://github.com/'' @ s"
    by (simp add: GitHubOrgRepo_match)
next
  assume "is_segment a \<and> is_segment b"
  then show "GitHubOrgRepo (a @ ''/'' @ b @ ''/'' @ extra) = ([], False)"
    using GitHubOrgRepo_three_segments by blast
next
  assume "tail = [] \<or> hd tail = CHR ''?'' \<or> hd tail = CHR ''#''"
  then show "GitHubOrgRepo tail = ([], False)" by (rule GitHubOrgRepo_no_segment)
next
  assume "tail = [] \<or> hd tail = CHR ''?'' \<or> hd tail = CHR ''#''" "is_segment w"
  then show "GitHubOrgRepo (w @ tail) = ([], False)"
    using GitHubOrgRepo_bare_word by blast
qed


lemma is_segment_eval:
  "is_segment ''user''" "is_segment ''repo''" "is_segment ''org''" "is_segment ''my-org_1''"
  by (simp_all add: is_segment_def segment_class_def in_class_def)


theorem GitHubOrgRepo_shorthand_witness:
  "is_segment ''user'' \<and> is_segment ''repo'' \<and> is_segment ''org'' \<and>
   GitHubOrgRepo ''user/repo?ref=main#section'' =
     (''git+https://github.com/user/repo?ref=main#section'', True) \<and>
   snd (GitHubOrgRepo ''user/repo#readme'') \<and>
   fst (GitHubOrgRepo ''user/repo#readme'') = ''git+https://github.com/user/repo#readme'' \<and>
   GitHubOrgRepo ''org/repo/path?ref=main'' = ([], False) \<and>
   GitHubOrgRepo '''' = ([], False) \<and>
   GitHubOrgRepo ''?ref=main'' = ([], False) \<and>
   GitHubOrgRepo ''repo?ref=main'' = ([], False) \<and>
   GitHubOrgRepo ''repo'' = ([], False)"
proof -
  note t = GitHubOrgRepo_shorthand
  have 1: "GitHubOrgRepo ''user/repo?ref=main#section'' =
     (''git+https://github.com/user/repo?ref=main#section'', True)"
    using t [of "''user''" "''repo''" "CHR ''?''" "''ref=main#section''"] is_segment_eval by simp
  have 2: "GitHubOrgRepo ''user/repo#readme'' = (''git+https://github.com/user/repo#readme'', True)"
    using t [of "''user''" "''repo''" "CHR ''#''" "''readme''"] is_segment_eval by simp
  have 3: "fst (GitHubOrgRepo ''user/repo#readme'') = ''git+https://github.com/user/repo#readme''"
    using t [of _ _ _ _ "''user/repo#readme''"] 2 by simp
  have 4: "GitHubOrgRepo ''org/repo/path?ref=main'' = ([], False)"
    using t [of _ _ _ _ _ "''org''" "''repo''" "''path?ref=main''"] is_segment_eval by simp
  have 5: "GitHubOrgRepo '''' = ([], False)"
    using t [of _ _ _ _ _ _ _ _ "[]"] by simp
  have 6: "GitHubOrgRepo ''?ref=main'' = ([], False)"
    using t [of _ _ _ _ _ _ _ _ "''?ref=main''"] by simp
  have 7: "GitHubOrgRepo ''repo?ref=main'' = ([], False)"
    using t [of _ _ _ _ _ _ _ _ "''?ref=main''" "''repo''"] is_segment_eval by simp
  have 8: "GitHubOrgRepo ''repo'' = ([], False)"
    using t [of _ _ _ _ _ _ _ _ "[]" "''repo''"] is_segment_eval by simp
  from 1 2 3 4 5 6 7 8 is_segment_eval show ?thesis by simp
qed


theorem GitHubOrgRepo_shorthand_counterexample:
  "GitHubOrgRepo ''user/repo?ref=main'' \<noteq> (''https://github.com/user/repo?ref=main'', True)"
proof -
  have "snd (GitHubOrgRepo (''user'' @ ''/'' @ ''repo'' @ CHR ''?'' # ''ref=main''))"
    unfolding GitHubOrgRepo_match_form using is_segment_eval by blast
  then have "fst (GitHubOrgRepo ''user/repo?ref=main'') = ''git+https://github.com/user/repo?ref=main''"
    by (simp add: GitHubOrgRepo_match)
  then show ?thesis by auto
qed

lemma GitHub_git_https: "GitHub (''git+https://github.com/'' @ rest) = ([], False)"
  by (simp add: GitHub_def HasPrefix_def)

lemma GitHubOrgRepo_git_https: "GitHubOrgRepo (''git+https://github.com/'' @ rest) = ([], False)"
proof (rule GitHubOrgRepo_no_match, rule notI)
  assume "snd (GitHubOrgRepo (''git+https://github.com/'' @ rest))"
  then obtain org repo c r
    where e: "''git+https://github.com/'' @ rest = org @ CHR ''/'' # (repo @ c # r)"
      and g: "is_segment org"
    unfolding GitHubOrgRepo_match_Cons by blast
  have eq: "''git+https:'' @ CHR ''/'' # (''/github.com/'' @ rest) = org @ CHR ''/'' # (repo @ c # r)"
    using e by simp
  have "CHR ''/'' \<notin> set ''git+https:''" by simp
  with eq segment_chars(2) [OF g]
  have "''git+https:'' = org \<and> CHR ''/'' = CHR ''/'' \<and> ''/github.com/'' @ rest = repo @ c # r"
    by (rule first_separator)
  then have "CHR ''+'' \<in> set org" by auto
  with segment_chars(5) [OF g] show False by blast
qed

text \<open>
  C6 (as amended).  For every input beginning with \<open>https://github.com/\<close>, the GitHub
  mapper recognises the schemed form and reports a match, returning the input with
  \<open>git+\<close> prepended; it is the first mapper of the default set, so the candidate of
  the default mapper chain is \<open>git+\<close> followed by the input.  On that output the
  GitHub and GitHubOrgRepo mappers report no match.  The input is not passed through
  unchanged, as the counterexample shows.
\<close>

theorem GitHub_canonical:
  "GitHub (''https://github.com/'' @ rest) = (''git+https://github.com/'' @ rest, True) \<and>
   map_source parse (mappers (Default os)) (''https://github.com/'' @ rest) =
     (case parse (''git+https://github.com/'' @ rest) of
        None \<Rightarrow> Panic (''mapper did not produce a valid URL: '' @ ''git+https://github.com/'' @ rest)
      | Some u \<Rightarrow> Return (''git+https://github.com/'' @ rest)) \<and>
   GitHub (''git+https://github.com/'' @ rest) = ([], False) \<and>
   GitHubOrgRepo (''git+https://github.com/'' @ rest) = ([], False)"
proof -
  have 1: "GitHub (''https://github.com/'' @ rest) = (''git+https://github.com/'' @ rest, True)"
    by (simp add: GitHub_def HasPrefix_def)
  then have "map_source parse (mappers (Default os)) (''https://github.com/'' @ rest) =
     (case parse (''git+https://github.com/'' @ rest) of
        None \<Rightarrow> Panic (''mapper did not produce a valid URL: '' @ ''git+https://github.com/'' @ rest)
      | Some u \<Rightarrow> Return (''git+https://github.com/'' @ rest))"
    by (simp add: Default_def New_def split: option.splits)
  with 1 GitHub_git_https GitHubOrgRepo_git_https show ?thesis by blast
qed

lemma url_Parse_git_https_user_repo:
  "url_Parse ''git+https://github.com/user/repo'' =
     Some \<lparr>Scheme = ''git+https'', Opaque = [], User = None, Host = ''github.com'',
           Path = ''/user/repo'', RawQuery = [], Fragment = []\<rparr>"
  by (simp add: url_Parse_def Cut_def url_parse_def stringContainsCTLByte_def getScheme_def
      ToLower_def split_query_def HasSuffix_def HasPrefix_def split_authority_def empty_URL_def
      is_alpha_def is_scheme_extra_def in_class_def parseAuthority_def)

theorem GitHub_canonical_witness:
  "GitHub ''https://github.com/user/repo'' = (''git+https://github.com/user/repo'', True) \<and>
   map_source url_Parse (mappers (Default example_os)) ''https://github.com/user/repo'' =
     Return ''git+https://github.com/user/repo'' \<and>
   GitHub ''git+https://github.com/user/repo'' = ([], False) \<and>
   GitHubOrgRepo ''git+https://github.com/user/repo'' = ([], False)"
  using GitHub_canonical [of "''user/repo''" url_Parse example_os]
  by (simp add: url_Parse_git_https_user_repo)

theorem GitHub_canonical_counterexample:
  "fst (GitHub ''https://github.com/user/repo'') \<noteq> ''https://github.com/user/repo''"
  by (simp add: GitHub_def HasPrefix_def)

section \<open>The empty source string\<close>

lemma url_Parse_empty: "url_Parse [] = Some empty_URL"
  by (simp add: url_Parse_def Cut_def url_parse_def stringContainsCTLByte_def getScheme_def
      ToLower_def split_query_def HasSuffix_def HasPrefix_def split_authority_def empty_URL_def)

lemma map_source_Default_empty:
  "map_source parse [GitHub, GitHubOrgRepo, FilePath os] [] = Return []"
  by (simp add: GitHub_def HasPrefix_def GitHubOrgRepo_def MatchString_anchored_def
      gitHubOrgRe_def Plus_def FilePath_def)

lemma TAR_Match_empty: "\<not> TAR_Match empty_URL"
  by (simp add: TAR_Match_def empty_URL_def tarRe_def Opt_def Plus_def Lit_def)

text \<open>
  C7.  The claim is that resolving the empty string against the default Fetcher yields an
  error.  Evaluated on the code: no default mapper matches \<open>""\<close>, it parses as the
  empty URL, and \<open>Git.Match\<close> of git.go accepts the empty scheme, so \<open>Resolve\<close>
  returns the Git resolver and a Source with a nil error.  With the second definition
  of \<open>Git.Match\<close> no resolver matches and the result is the unsupported-source
  error, as the claim says.
\<close>

theorem Resolve_empty_string:
  "Resolve url_Parse (Default os) [] =
     Return (Some Git, \<lparr>URL = Some empty_URL, SubDir = []\<rparr>, None) \<and>
   Resolve url_Parse (Default2 os) [] =
     Return (None, zero_Source, Some (UnsupportedSource empty_URL))"
proof -
  have 1: "match_source [File, Git, TAR, ZIP] empty_URL =
          (Some Git, \<lparr>URL = Some empty_URL, SubDir = []\<rparr>, None)"
    by (simp add: File_Match_def Git_Match_def empty_URL_def Cut_def HasPrefix_def)
  have 2: "match_source [File, Git2, TAR, ZIP] empty_URL =
          (None, zero_Source, Some (UnsupportedSource empty_URL))"
    using TAR_Match_empty
    by (simp add: File_Match_def Git_Match_schemes_def ZIP_Match_def HasSuffix_def)
       (simp add: empty_URL_def)
  show ?thesis
    unfolding Resolve_def Default_def Default2_def New_def
    by (simp add: map_source_Default_empty url_Parse_empty 1 2
        del: map_source.simps match_source.simps)
qed

section \<open>Resolution\<close>

lemma Resolve_no_mappers:
  "Resolve parse (New rs []) cand =
     (case parse cand of
        None \<Rightarrow> Return (None, zero_Source, Some (InvalidSource cand))
      | Some u \<Rightarrow> Return (match_source rs u))"
  by (simp add: Resolve_def New_def split: option.splits)

lemma Resolve_candidate:
  "map_source parse ms source = Return cand \<Longrightarrow>
   Resolve parse (New rs ms) source = Resolve parse (New rs []) cand"
  by (simp add: Resolve_def New_def split: option.splits)

text \<open>
  C1.  For every input string, the candidate URL that \<open>Resolve\<close> parses is the output of
  the first mapper, in registration order, whose second result is true, applied to the
  original input: the mappers after it do not influence the result, and \<open>Resolve\<close>
  continues as a Fetcher without mappers would on that output (it panics if the output
  does not parse).  If no mapper matches, the candidate is the original input string.
\<close>

theorem Resolve_first_mapper:
  "((\<forall>m \<in> set ms. \<not> snd (m source)) \<longrightarrow>
      map_source parse ms source = Return source \<and>
      Resolve parse (New rs ms) source = Resolve parse (New rs []) source) \<and>
   ((\<forall>m' \<in> set pre. \<not> snd (m' source)) \<and> snd (m source) \<longrightarrow>
      map_source parse (pre @ m # post) source =
        (case parse (fst (m source)) of
           None \<Rightarrow> Panic (''mapper did not produce a valid URL: '' @ fst (m source))
         | Some u \<Rightarrow> Return (fst (m source))) \<and>
      (parse (fst (m source)) = None \<longrightarrow>
         Resolve parse (New rs (pre @ m # post)) source =
           Panic (''mapper did not produce a valid URL: '' @ fst (m source))) \<and>
      (parse (fst (m source)) \<noteq> None \<longrightarrow>
         Resolve parse (New rs (pre @ m # post)) source =
           Resolve parse (New rs []) (fst (m source))))"
proof (intro conjI impI)
  assume "\<forall>m \<in> set ms. \<not> snd (m source)"
  then show 1: "map_source parse ms source = Return source"
    by (rule map_source_none)
  then show "Resolve parse (New rs ms) source = Resolve parse (New rs []) source"
    by (rule Resolve_candidate)
next
  assume a: "(\<forall>m' \<in> set pre. \<not> snd (m' source)) \<and> snd (m source)"
  then show 2: "map_source parse (pre @ m # post) source =
        (case parse (fst (m source)) of
           None \<Rightarrow> Panic (''mapper did not produce a valid URL: '' @ fst (m source))
         | Some u \<Rightarrow> Return (fst (m source)))"
    using map_source_first [of pre source m parse post] by blast
  {
    assume "parse (fst (m source)) = None"
    with 2 show "Resolve parse (New rs (pre @ m # post)) source =
           Panic (''mapper did not produce a valid URL: '' @ fst (m source))"
      by (simp add: Resolve_def New_def)
  }
  {
    assume "parse (fst (m source)) \<noteq> None"
    with 2 have "map_source parse (pre @ m # post) source = Return (fst (m source))"
      by auto
    then show "Resolve parse (New rs (pre @ m # post)) source =
           Resolve parse (New rs []) (fst (m source))"
      by (rule Resolve_candidate)
  }
qed

lemma url_Parse_a_first:
  "url_Parse ''a://first'' =
     Some \<lparr>Scheme = ''a'', Opaque = [], User = None, Host = ''first'',
           Path = [], RawQuery = [], Fragment = []\<rparr>"
  by (simp add: url_Parse_def Cut_def url_parse_def stringContainsCTLByte_def getScheme_def
      ToLower_def split_query_def HasSuffix_def HasPrefix_def split_authority_def empty_URL_def
      is_alpha_def is_scheme_extra_def in_class_def parseAuthority_def)

lemma default_mappers_ftp:
  "GitHub ''ftp://host/file'' = ([], False)" "GitHubOrgRepo ''ftp://host/file'' = ([], False)"
  by (simp_all add: GitHub_def HasPrefix_def GitHubOrgRepo_def MatchString_anchored_def
      gitHubOrgRe_def Plus_def Lit_def segment_class_def in_class_def)

theorem Resolve_first_mapper_witness:
  "\<not> snd (GitHub ''ftp://host/file'') \<and> \<not> snd (GitHubOrgRepo ''ftp://host/file'') \<and>
   map_source url_Parse [GitHub, GitHubOrgRepo] ''ftp://host/file'' = Return ''ftp://host/file'' \<and>
   \<not> snd (GitHub ''x'') \<and>
   snd ((\<lambda>s. (''a://first'', True)) ''x'') \<and>
   map_source url_Parse [GitHub, \<lambda>s. (''a://first'', True), \<lambda>s. (''b://second'', True)] ''x'' =
     Return ''a://first'' \<and>
   Resolve url_Parse
     (New [Custom (\<lambda>u. True)] [GitHub, \<lambda>s. (''a://first'', True), \<lambda>s. (''b://second'', True)]) ''x'' =
     Resolve url_Parse (New [Custom (\<lambda>u. True)] []) ''a://first''"
proof -
  have g: "GitHub ''x'' = ([], False)" by (simp add: GitHub_def HasPrefix_def)
  have 1: "\<forall>m \<in> set [GitHub, GitHubOrgRepo]. \<not> snd (m ''ftp://host/file'')"
    by (simp add: default_mappers_ftp)
  have 2: "(\<forall>m' \<in> set [GitHub]. \<not> snd (m' ''x'')) \<and> snd ((\<lambda>s. (''a://first'', True)) ''x'')"
    by (simp add: g)
  note t1 = Resolve_first_mapper [of "[GitHub, GitHubOrgRepo]" "''ftp://host/file''" url_Parse]
  note t2 = Resolve_first_mapper [of _ "''x''" url_Parse "[Custom (\<lambda>u. True)]" "[GitHub]"
      "\<lambda>s. (''a://first'', True)" "[\<lambda>s. (''b://second'', True)]"]
  from t1 1 have 3: "map_source url_Parse [GitHub, GitHubOrgRepo] ''ftp://host/file'' =
      Return ''ftp://host/file''" by blast
  from t2 2 have 4: "map_source url_Parse ([GitHub] @ (\<lambda>s. (''a://first'', True)) # [\<lambda>s. (''b://second'', True)]) ''x'' =
      Return ''a://first''"
    by (simp add: url_Parse_a_first)
  from t2 2 have 5: "Resolve url_Parse
     (New [Custom (\<lambda>u. True)] ([GitHub] @ (\<lambda>s. (''a://first'', True)) # [\<lambda>s. (''b://second'', True)])) ''x'' =
     Resolve url_Parse (New [Custom (\<lambda>u. True)] []) ''a://first''"
    by (simp add: url_Parse_a_first)
  from 3 4 5 show ?thesis by (simp add: g default_mappers_ftp)
qed

text \<open>
  C2.  For every parsed candidate URL and every resolver list, the resolver that
  \<open>Resolve\<close> returns is the first one, in registration order, whose \<open>Match\<close> is true
  for that URL; the resolvers registered after it are irrelevant.
\<close>

theorem Resolve_first_resolver:
  "fst (match_source rs u) = find (\<lambda>r. Match r u) rs \<and>
   ((\<forall>r' \<in> set pre. \<not> Match r' u) \<and> Match r u \<longrightarrow>
      fst (match_source (pre @ r # post) u) = Some r \<and>
      (map_source parse (mappers f) source = Return cand \<and> parse cand = Some u \<and>
       resolvers f = pre @ r # post \<longrightarrow>
         (\<exists>src. Resolve parse f source = Return (Some r, src, None))))"
proof (intro conjI impI)
  show "fst (match_source rs u) = find (\<lambda>r. Match r u) rs"
    by (rule match_source_find)
next
  assume a: "(\<forall>r' \<in> set pre. \<not> Match r' u) \<and> Match r u"
  then have m: "match_source (pre @ r # post) u = match_source [r] u"
    using match_source_first by blast
  from a have s: "\<exists>src. match_source [r] u = (Some r, src, None)"
    using match_source_single [of r u] by blast
  from s obtain src where src: "match_source [r] u = (Some r, src, None)" by blast
  with m show "fst (match_source (pre @ r # post) u) = Some r" by (simp only: fst_conv)
  {
    assume "map_source parse (mappers f) source = Return cand \<and> parse cand = Some u \<and>
       resolvers f = pre @ r # post"
    then have "Resolve parse f source = Return (match_source (pre @ r # post) u)"
      by (simp add: Resolve_def)
    with m src show "\<exists>src. Resolve parse f source = Return (Some r, src, None)"
      by (simp only: exI [of _ src])
  }
qed

lemmas url_Parse_eval =
  url_Parse_def Cut_def url_parse_def stringContainsCTLByte_def getScheme_def
  ToLower_def split_query_def HasSuffix_def HasPrefix_def split_authority_def empty_URL_def
  is_alpha_def is_scheme_extra_def in_class_def parseAuthority_def


lemmas TAR_Match_eval = TAR_Match_def tarRe_def Opt_def Plus_def Lit_def in_class_def


lemma url_Parse_tar_zip:
  "url_Parse ''https://host/a.tar.gz/b.zip'' =
     Some \<lparr>Scheme = ''https'', Opaque = [], User = None, Host = ''host'',
           Path = ''/a.tar.gz/b.zip'', RawQuery = [], Fragment = []\<rparr>"
  by (simp add: url_Parse_eval)


theorem Resolve_first_resolver_witness:
  "\<not> Match File \<lparr>Scheme = ''https'', Opaque = [], User = None, Host = ''host'',
       Path = ''/a.tar.gz/b.zip'', RawQuery = [], Fragment = []\<rparr> \<and>
   \<not> Match Git2 \<lparr>Scheme = ''https'', Opaque = [], User = None, Host = ''host'',
       Path = ''/a.tar.gz/b.zip'', RawQuery = [], Fragment = []\<rparr> \<and>
   Match TAR \<lparr>Scheme = ''https'', Opaque = [], User = None, Host = ''host'',
       Path = ''/a.tar.gz/b.zip'', RawQuery = [], Fragment = []\<rparr> \<and>
   Match ZIP \<lparr>Scheme = ''https'', Opaque = [], User = None, Host = ''host'',
       Path = ''/a.tar.gz/b.zip'', RawQuery = [], Fragment = []\<rparr> \<and>
   fst (match_source [File, Git2, TAR, ZIP]
      \<lparr>Scheme = ''https'', Opaque = [], User = None, Host = ''host'',
       Path = ''/a.tar.gz/b.zip'', RawQuery = [], Fragment = []\<rparr>) = Some TAR \<and>
   (\<exists>src. Resolve url_Parse (New [File, Git2, TAR, ZIP] []) ''https://host/a.tar.gz/b.zip'' =
      Return (Some TAR, src, None))"
proof -
  let ?u = "\<lparr>Scheme = ''https'', Opaque = [], User = None, Host = ''host'',
       Path = ''/a.tar.gz/b.zip'', RawQuery = [], Fragment = []\<rparr>"
  have 1: "\<forall>r' \<in> set [File, Git2]. \<not> Match r' ?u"
    by (simp add: File_Match_def Git_Match_schemes_def)
  have 2: "Match TAR ?u" by (simp add: TAR_Match_eval)
  have 3: "Match ZIP ?u" by (simp add: ZIP_Match_def HasSuffix_def)
  note t = Resolve_first_resolver [of _ ?u "[File, Git2]" TAR "[ZIP]" url_Parse
      "New [File, Git2, TAR, ZIP] []" "''https://host/a.tar.gz/b.zip''" "''https://host/a.tar.gz/b.zip''"]
  from t 1 2 have 4: "fst (match_source ([File, Git2] @ TAR # [ZIP]) ?u) = Some TAR" by blast
  have "map_source url_Parse (mappers (New [File, Git2, TAR, ZIP] [])) ''https://host/a.tar.gz/b.zip'' =
          Return ''https://host/a.tar.gz/b.zip'' \<and>
        url_Parse ''https://host/a.tar.gz/b.zip'' = Some ?u \<and>
        resolvers (New [File, Git2, TAR, ZIP] []) = [File, Git2] @ TAR # [ZIP]"
    by (simp add: New_def url_Parse_tar_zip)
  with t 1 2 have 5: "\<exists>src. Resolve url_Parse (New [File, Git2, TAR, ZIP] []) ''https://host/a.tar.gz/b.zip'' =
      Return (Some TAR, src, None)" by blast
  from 4 have 6: "fst (match_source [File, Git2, TAR, ZIP] ?u) = Some TAR" by simp
  from 1 have "\<not> Match File ?u" "\<not> Match Git2 ?u" by simp_all
  with 2 3 5 6 show ?thesis by blast
qed


lemma Cut_cases:
  "(\<exists>before after. Cut s sep = (before, after, True) \<and> s = before @ sep @ after \<and>
       (\<forall>p q. s = p @ sep @ q \<longrightarrow> length before \<le> length p)) \<or>
   (Cut s sep = (s, [], False) \<and> (\<forall>p q. s \<noteq> p @ sep @ q))"
proof (cases "Cut s sep")
  case (fields before after found)
  show ?thesis
  proof (cases found)
    case True
    with fields have c: "Cut s sep = (before, after, True)" by simp
    from Cut_found [OF c] c show ?thesis by blast
  next
    case False
    with fields have c: "Cut s sep = (before, after, False)" by simp
    from Cut_not_found [OF c] c show ?thesis by blast
  qed
qed


lemma match_source_single_split:
  assumes "Match r u"
  shows "(\<exists>base sub. Path u = base @ ''//'' @ sub \<and>
            (\<forall>p q. Path u = p @ ''//'' @ q \<longrightarrow> length base \<le> length p) \<and>
            match_source [r] u = (Some r, \<lparr>URL = Some (u\<lparr>Path := base\<rparr>), SubDir = sub\<rparr>, None)) \<or>
         ((\<forall>p q. Path u \<noteq> p @ ''//'' @ q) \<and>
            match_source [r] u = (Some r, \<lparr>URL = Some u, SubDir = []\<rparr>, None))"
  using Cut_cases [of "Path u" "''//''"]
proof
  assume "\<exists>before after. Cut (Path u) ''//'' = (before, after, True) \<and>
      Path u = before @ ''//'' @ after \<and>
      (\<forall>p q. Path u = p @ ''//'' @ q \<longrightarrow> length before \<le> length p)"
  then obtain before after where c: "Cut (Path u) ''//'' = (before, after, True)"
    and p: "Path u = before @ ''//'' @ after"
      "\<forall>p q. Path u = p @ ''//'' @ q \<longrightarrow> length before \<le> length p" by blast
  from c assms have "match_source [r] u =
      (Some r, \<lparr>URL = Some (u\<lparr>Path := before\<rparr>), SubDir = after\<rparr>, None)"
    by simp
  with p show ?thesis by blast
next
  assume "Cut (Path u) ''//'' = (Path u, [], False) \<and> (\<forall>p q. Path u \<noteq> p @ ''//'' @ q)"
  then have c: "Cut (Path u) ''//'' = (Path u, [], False)"
    and p: "\<forall>p q. Path u \<noteq> p @ ''//'' @ q" by blast+
  from c assms have "match_source [r] u = (Some r, \<lparr>URL = Some u, SubDir = []\<rparr>, None)"
    by simp
  with p show ?thesis by blast
qed

lemma match_source_Some:
  "match_source rs u = (Some r, src, e) \<Longrightarrow>
     Match r u \<and> match_source [r] u = (Some r, src, e)"
proof (induction rs)
  case Nil
  then show ?case by simp
next
  case (Cons a rs)
  show ?case
  proof (cases "Match a u")
    case True
    with Cons.prems have "a = r" by (simp split: prod.splits)
    with True Cons.prems show ?thesis by (simp split: prod.splits)
  next
    case False
    with Cons.prems have "match_source rs u = (Some r, src, e)" by simp
    then show ?thesis by (rule Cons.IH)
  qed
qed

lemma Resolve_Return_Some:
  assumes "Resolve parse f source = Return (Some r, src, e)"
  shows "\<exists>cand u. map_source parse (mappers f) source = Return cand \<and> parse cand = Some u \<and>
           match_source (resolvers f) u = (Some r, src, e)"
proof (cases "map_source parse (mappers f) source")
  case (Panic msg)
  with assms show ?thesis by (simp add: Resolve_def)
next
  case (Return cand)
  show ?thesis
  proof (cases "parse cand")
    case None
    with Return assms show ?thesis by (simp add: Resolve_def)
  next
    case (Some u)
    with Return assms have "match_source (resolvers f) u = (Some r, src, e)"
      by (simp add: Resolve_def)
    with Return Some show ?thesis by blast
  qed
qed


text \<open>
  C3.  For every successful \<open>Resolve\<close>, the selected resolver's \<open>Match\<close> holds of the
  parsed URL with its full, undivided path; and if that path contains \<open>//\<close>, the path of
  the returned Source is the portion before the first occurrence and \<open>SubDir\<close> is the
  portion after it, otherwise the URL is unchanged and \<open>SubDir\<close> is empty.
\<close>


theorem Resolve_subdir:
  "Resolve parse f source = Return (Some r, src, e) \<longrightarrow>
     (\<exists>cand u. map_source parse (mappers f) source = Return cand \<and> parse cand = Some u \<and>
        Match r u \<and> e = None \<and>
        ((\<exists>base sub. Path u = base @ ''//'' @ sub \<and>
             (\<forall>p q. Path u = p @ ''//'' @ q \<longrightarrow> length base \<le> length p) \<and>
             URL src = Some (u\<lparr>Path := base\<rparr>) \<and> SubDir src = sub) \<or>
         ((\<forall>p q. Path u \<noteq> p @ ''//'' @ q) \<and> URL src = Some u \<and> SubDir src = [])))"
proof
  assume "Resolve parse f source = Return (Some r, src, e)"
  then obtain cand u where c: "map_source parse (mappers f) source = Return cand"
    and u: "parse cand = Some u" and m: "match_source (resolvers f) u = (Some r, src, e)"
    using Resolve_Return_Some by blast
  from match_source_Some [OF m] have mr: "Match r u"
    and s: "match_source [r] u = (Some r, src, e)" by blast+
  have "e = None \<and>
        ((\<exists>base sub. Path u = base @ ''//'' @ sub \<and>
             (\<forall>p q. Path u = p @ ''//'' @ q \<longrightarrow> length base \<le> length p) \<and>
             URL src = Some (u\<lparr>Path := base\<rparr>) \<and> SubDir src = sub) \<or>
         ((\<forall>p q. Path u \<noteq> p @ ''//'' @ q) \<and> URL src = Some u \<and> SubDir src = []))"
    using match_source_single_split [OF mr]
  proof
    assume "\<exists>base sub. Path u = base @ ''//'' @ sub \<and>
            (\<forall>p q. Path u = p @ ''//'' @ q \<longrightarrow> length base \<le> length p) \<and>
            match_source [r] u = (Some r, \<lparr>URL = Some (u\<lparr>Path := base\<rparr>), SubDir = sub\<rparr>, None)"
    then obtain base sub where p: "Path u = base @ ''//'' @ sub"
      "\<forall>p q. Path u = p @ ''//'' @ q \<longrightarrow> length base \<le> length p"
      and "match_source [r] u = (Some r, \<lparr>URL = Some (u\<lparr>Path := base\<rparr>), SubDir = sub\<rparr>, None)"
      by blast
    with s have "(Some r, src, e) = (Some r, \<lparr>URL = Some (u\<lparr>Path := base\<rparr>), SubDir = sub\<rparr>, None)"
      by (simp only:)
    then have "e = None" "URL src = Some (u\<lparr>Path := base\<rparr>)" "SubDir src = sub" by simp_all
    with p show ?thesis by blast
  next
    assume "(\<forall>p q. Path u \<noteq> p @ ''//'' @ q) \<and>
            match_source [r] u = (Some r, \<lparr>URL = Some u, SubDir = []\<rparr>, None)"
    then have p: "\<forall>p q. Path u \<noteq> p @ ''//'' @ q"
      and "match_source [r] u = (Some r, \<lparr>URL = Some u, SubDir = []\<rparr>, None)" by blast+
    with s have "(Some r, src, e) = (Some r, \<lparr>URL = Some u, SubDir = []\<rparr>, None)"
      by (simp only:)
    then have "e = None" "URL src = Some u" "SubDir src = []" by simp_all
    with p show ?thesis by blast
  qed
  with c u mr show "\<exists>cand u. map_source parse (mappers f) source = Return cand \<and> parse cand = Some u \<and>
        Match r u \<and> e = None \<and>
        ((\<exists>base sub. Path u = base @ ''//'' @ sub \<and>
             (\<forall>p q. Path u = p @ ''//'' @ q \<longrightarrow> length base \<le> length p) \<and>
             URL src = Some (u\<lparr>Path := base\<rparr>) \<and> SubDir src = sub) \<or>
         ((\<forall>p q. Path u \<noteq> p @ ''//'' @ q) \<and> URL src = Some u \<and> SubDir src = []))"
    by blast
qed


lemma url_Parse_examples:
  "url_Parse ''http://host/a.tgz//sub/dir'' =
     Some \<lparr>Scheme = ''http'', Opaque = [], User = None, Host = ''host'',
           Path = ''/a.tgz//sub/dir'', RawQuery = [], Fragment = []\<rparr>"
  "url_Parse ''http://host/a.tgz'' =
     Some \<lparr>Scheme = ''http'', Opaque = [], User = None, Host = ''host'',
           Path = ''/a.tgz'', RawQuery = [], Fragment = []\<rparr>"
  "url_Parse ''http://host/a//b.zip'' =
     Some \<lparr>Scheme = ''http'', Opaque = [], User = None, Host = ''host'',
           Path = ''/a//b.zip'', RawQuery = [], Fragment = []\<rparr>"
  "url_Parse ''ftp://host/file'' =
     Some \<lparr>Scheme = ''ftp'', Opaque = [], User = None, Host = ''host'',
           Path = ''/file'', RawQuery = [], Fragment = []\<rparr>"
  by (simp_all add: url_Parse_eval)

lemma Cut_examples:
  "Cut ''/a.tgz//sub/dir'' ''//'' = (''/a.tgz'', ''sub/dir'', True)"
  "Cut ''/a.tgz'' ''//'' = (''/a.tgz'', [], False)"
  "Cut ''/a//b.zip'' ''//'' = (''/a'', ''b.zip'', True)"
  by (simp_all add: Cut_def HasPrefix_def)

lemma Resolve_examples:
  "Resolve url_Parse (New [TAR, ZIP] []) ''http://host/a.tgz//sub/dir'' =
     Return (Some TAR,
       \<lparr>URL = Some \<lparr>Scheme = ''http'', Opaque = [], User = None, Host = ''host'',
                     Path = ''/a.tgz'', RawQuery = [], Fragment = []\<rparr>,
        SubDir = ''sub/dir''\<rparr>, None)"
  "Resolve url_Parse (New [TAR, ZIP] []) ''http://host/a.tgz'' =
     Return (Some TAR,
       \<lparr>URL = Some \<lparr>Scheme = ''http'', Opaque = [], User = None, Host = ''host'',
                     Path = ''/a.tgz'', RawQuery = [], Fragment = []\<rparr>,
        SubDir = []\<rparr>, None)"
  "Resolve url_Parse (New [ZIP] []) ''http://host/a//b.zip'' =
     Return (Some ZIP,
       \<lparr>URL = Some \<lparr>Scheme = ''http'', Opaque = [], User = None, Host = ''host'',
                     Path = ''/a'', RawQuery = [], Fragment = []\<rparr>,
        SubDir = ''b.zip''\<rparr>, None)"
  by (simp_all add: Resolve_def New_def url_Parse_examples Cut_examples TAR_Match_eval
      ZIP_Match_def HasSuffix_def)

theorem Resolve_subdir_witness:
  "Resolve url_Parse (New [TAR, ZIP] []) ''http://host/a.tgz//sub/dir'' =
     Return (Some TAR,
       \<lparr>URL = Some \<lparr>Scheme = ''http'', Opaque = [], User = None, Host = ''host'',
                     Path = ''/a.tgz'', RawQuery = [], Fragment = []\<rparr>,
        SubDir = ''sub/dir''\<rparr>, None) \<and>
   Resolve url_Parse (New [TAR, ZIP] []) ''http://host/a.tgz'' =
     Return (Some TAR,
       \<lparr>URL = Some \<lparr>Scheme = ''http'', Opaque = [], User = None, Host = ''host'',
                     Path = ''/a.tgz'', RawQuery = [], Fragment = []\<rparr>,
        SubDir = []\<rparr>, None) \<and>
   Resolve url_Parse (New [ZIP] []) ''http://host/a//b.zip'' =
     Return (Some ZIP,
       \<lparr>URL = Some \<lparr>Scheme = ''http'', Opaque = [], User = None, Host = ''host'',
                     Path = ''/a'', RawQuery = [], Fragment = []\<rparr>,
        SubDir = ''b.zip''\<rparr>, None) \<and>
   \<not> Match ZIP \<lparr>Scheme = ''http'', Opaque = [], User = None, Host = ''host'',
                 Path = ''/a'', RawQuery = [], Fragment = []\<rparr> \<and>
   (\<exists>cand u. map_source url_Parse (mappers (New [ZIP] [])) ''http://host/a//b.zip'' = Return cand \<and>
      url_Parse cand = Some u \<and> Match ZIP u)"
proof -
  have "\<exists>cand u. map_source url_Parse (mappers (New [ZIP] [])) ''http://host/a//b.zip'' = Return cand \<and>
      url_Parse cand = Some u \<and> Match ZIP u"
    using Resolve_subdir [of url_Parse "New [ZIP] []" "''http://host/a//b.zip''" ZIP _ None]
      Resolve_examples(3)
    by blast
  moreover have "\<not> Match ZIP \<lparr>Scheme = ''http'', Opaque = [], User = None, Host = ''host'',
                 Path = ''/a'', RawQuery = [], Fragment = []\<rparr>"
    by (simp add: ZIP_Match_def HasSuffix_def)
  ultimately show ?thesis using Resolve_examples by blast
qed

text \<open>
  C8.  When no resolver's \<open>Match\<close> is true for the candidate URL, \<open>Resolve\<close> returns no
  resolver, the zero Source and the unsupported-source error, whose message is
  \<open>unsupported source: \<close> followed by the URL; that error and its message differ from
  the invalid-source error, which is what \<open>Resolve\<close> returns when the candidate does
  not parse.
\<close>

theorem Resolve_unsupported:
  "(map_source parse (mappers f) source = Return cand \<and> parse cand = Some u \<and>
    (\<forall>r \<in> set (resolvers f). \<not> Match r u) \<longrightarrow>
      Resolve parse f source = Return (None, zero_Source, Some (UnsupportedSource u)) \<and>
      Error quote str (UnsupportedSource u) = ''unsupported source: '' @ str u \<and>
      (\<forall>s. UnsupportedSource u \<noteq> InvalidSource s \<and>
           Error quote str (UnsupportedSource u) \<noteq> Error quote str (InvalidSource s))) \<and>
   (map_source parse (mappers f) source = Return cand \<and> parse cand = None \<longrightarrow>
      Resolve parse f source = Return (None, zero_Source, Some (InvalidSource cand)))"
proof (intro conjI impI allI)
  assume "map_source parse (mappers f) source = Return cand \<and> parse cand = Some u \<and>
    (\<forall>r \<in> set (resolvers f). \<not> Match r u)"
  then show "Resolve parse f source = Return (None, zero_Source, Some (UnsupportedSource u))"
    by (simp add: Resolve_def match_source_none)
next
  show "Error quote str (UnsupportedSource u) = ''unsupported source: '' @ str u"
    by (simp add: Error_def)
next
  fix s
  show "UnsupportedSource u \<noteq> InvalidSource s" by simp
  show "Error quote str (UnsupportedSource u) \<noteq> Error quote str (InvalidSource s)"
    by (simp add: Error_def)
next
  assume "map_source parse (mappers f) source = Return cand \<and> parse cand = None"
  then show "Resolve parse f source = Return (None, zero_Source, Some (InvalidSource cand))"
    by (simp add: Resolve_def)
qed

theorem Resolve_unsupported_witness:
  "map_source url_Parse (mappers (New [File, Git2, TAR, ZIP] [])) ''ftp://host/file'' =
     Return ''ftp://host/file'' \<and>
   url_Parse ''ftp://host/file'' =
     Some \<lparr>Scheme = ''ftp'', Opaque = [], User = None, Host = ''host'',
           Path = ''/file'', RawQuery = [], Fragment = []\<rparr> \<and>
   resolvers (New [File, Git2, TAR, ZIP] []) = [File, Git2, TAR, ZIP] \<and>
   \<not> Match File \<lparr>Scheme = ''ftp'', Opaque = [], User = None, Host = ''host'',
       Path = ''/file'', RawQuery = [], Fragment = []\<rparr> \<and>
   \<not> Match Git2 \<lparr>Scheme = ''ftp'', Opaque = [], User = None, Host = ''host'',
       Path = ''/file'', RawQuery = [], Fragment = []\<rparr> \<and>
   \<not> Match TAR \<lparr>Scheme = ''ftp'', Opaque = [], User = None, Host = ''host'',
       Path = ''/file'', RawQuery = [], Fragment = []\<rparr> \<and>
   \<not> Match ZIP \<lparr>Scheme = ''ftp'', Opaque = [], User = None, Host = ''host'',
       Path = ''/file'', RawQuery = [], Fragment = []\<rparr> \<and>
   Resolve url_Parse (New [File, Git2, TAR, ZIP] []) ''ftp://host/file'' =
     Return (None, zero_Source,
       Some (UnsupportedSource \<lparr>Scheme = ''ftp'', Opaque = [], User = None, Host = ''host'',
                                Path = ''/file'', RawQuery = [], Fragment = []\<rparr>)) \<and>
   Error (\<lambda>s. s) (\<lambda>u. Scheme u @ ''://'' @ Host u @ Path u)
     (UnsupportedSource \<lparr>Scheme = ''ftp'', Opaque = [], User = None, Host = ''host'',
                         Path = ''/file'', RawQuery = [], Fragment = []\<rparr>) =
     ''unsupported source: ftp://host/file'' \<and>
   map_source (\<lambda>s. None) (mappers (New [File] [])) ''ftp://host/file'' = Return ''ftp://host/file'' \<and>
   Resolve (\<lambda>s. None) (New [File] []) ''ftp://host/file'' =
     Return (None, zero_Source, Some (InvalidSource ''ftp://host/file''))"
proof -
  let ?u = "\<lparr>Scheme = ''ftp'', Opaque = [], User = None, Host = ''host'',
       Path = ''/file'', RawQuery = [], Fragment = []\<rparr>"
  let ?f = "New [File, Git2, TAR, ZIP] []"
  have 1: "map_source url_Parse (mappers ?f) ''ftp://host/file'' = Return ''ftp://host/file''"
    by (simp add: New_def)
  have 2: "\<forall>r \<in> set (resolvers ?f). \<not> Match r ?u"
    by (simp add: New_def File_Match_def Git_Match_schemes_def TAR_Match_eval ZIP_Match_def
        HasSuffix_def)
  note t = Resolve_unsupported [of url_Parse ?f "''ftp://host/file''" "''ftp://host/file''" ?u
      "\<lambda>s. s" "\<lambda>u. Scheme u @ ''://'' @ Host u @ Path u"]
  from t 1 2 url_Parse_examples(4)
  have 3: "Resolve url_Parse ?f ''ftp://host/file'' =
             Return (None, zero_Source, Some (UnsupportedSource ?u))"
    and 4: "Error (\<lambda>s. s) (\<lambda>u. Scheme u @ ''://'' @ Host u @ Path u) (UnsupportedSource ?u) =
             ''unsupported source: '' @ (\<lambda>u. Scheme u @ ''://'' @ Host u @ Path u) ?u"
    by blast+
  have 5: "map_source (\<lambda>s. None) (mappers (New [File] [])) ''ftp://host/file'' =
             Return ''ftp://host/file''"
    by (simp add: New_def)
  with Resolve_unsupported [of "\<lambda>s. None" "New [File] []" "''ftp://host/file''" "''ftp://host/file''"]
  have 6: "Resolve (\<lambda>s. None) (New [File] []) ''ftp://host/file'' =
     Return (None, zero_Source, Some (InvalidSource ''ftp://host/file''))"
    by blast
  from 4 have 7: "Error (\<lambda>s. s) (\<lambda>u. Scheme u @ ''://'' @ Host u @ Path u) (UnsupportedSource ?u) =
     ''unsupported source: ftp://host/file''" by simp
  from 2 have 8: "resolvers ?f = [File, Git2, TAR, ZIP]" "\<not> Match File ?u" "\<not> Match Git2 ?u"
    "\<not> Match TAR ?u" "\<not> Match ZIP ?u" by (simp_all add: New_def)
  from 1 3 5 6 7 8 url_Parse_examples(4) show ?thesis by blast
qed

section \<open>Properties of the filesystem-path mapper\<close>

lemma FilePath_resolved:
  assumes "source \<noteq> []" "\<not> HasPrefix source ''file://''"
    and "expand_home os source = Some path" "make_abs os path = Some dir"
    and "Stat os dir = Some True" "EvalSymlinks os dir = Some resolved"
  shows "FilePath os source = (''file://'' @ resolved, True)"
  using assms by (simp add: FilePath_def)

lemma FilePath_not_directory:
  assumes "\<not> HasPrefix source ''file://''"
    and "expand_home os source = Some path" "make_abs os path = Some dir"
    and "Stat os dir \<noteq> Some True"
  shows "FilePath os source = ([], False)"
  using assms by (auto simp: FilePath_def split: option.splits)

lemma FilePath_match_only:
  assumes "snd (FilePath os source)" "\<not> HasPrefix source ''file://''"
  shows "\<exists>dir resolved. Stat os dir = Some True \<and> EvalSymlinks os dir = Some resolved \<and>
           FilePath os source = (''file://'' @ resolved, True)"
  using assms by (auto simp: FilePath_def split: option.splits if_splits)

lemma HasPrefix_home_not_file: "HasPrefix source ''~/'' \<Longrightarrow> \<not> HasPrefix source ''file://'' \<and> source \<noteq> []"
  by (auto simp: HasPrefix_append)

text \<open>
  C9.  The FilePath mapper passes a string prefixed with \<open>file://\<close> through unchanged,
  with a match.  An absolute path, a \<open>~/\<close>-relative path (joined to the home
  directory) and any other relative path (\<open>./\<close>, \<open>../\<close>, a bare name; made absolute)
  that exists and is a directory is mapped to \<open>file://\<close> followed by the absolute path
  with its symbolic links resolved.  When the home-directory lookup fails, or the path
  does not exist or is not a directory, the mapper reports a non-match: every result is
  either a match of one of these two forms or \<open>("", false)\<close>, never an error.
\<close>

theorem FilePath_mapper:
  "(HasPrefix source ''file://'' \<longrightarrow> FilePath os source = (source, True)) \<and>
   (source \<noteq> [] \<and> \<not> HasPrefix source ''file://'' \<and> \<not> HasPrefix source ''~/'' \<and>
    IsAbs os source \<and> Stat os source = Some True \<and> EvalSymlinks os source = Some resolved \<longrightarrow>
      FilePath os source = (''file://'' @ resolved, True)) \<and>
   (HasPrefix source ''~/'' \<and> UserHomeDir os = Some home \<and>
    make_abs os (Join os home (drop 2 source)) = Some dir \<and>
    Stat os dir = Some True \<and> EvalSymlinks os dir = Some resolved \<longrightarrow>
      FilePath os source = (''file://'' @ resolved, True)) \<and>
   (source \<noteq> [] \<and> \<not> HasPrefix source ''file://'' \<and> \<not> HasPrefix source ''~/'' \<and>
    \<not> IsAbs os source \<and> Abs os source = Some dir \<and>
    Stat os dir = Some True \<and> EvalSymlinks os dir = Some resolved \<longrightarrow>
      FilePath os source = (''file://'' @ resolved, True)) \<and>
   (HasPrefix source ''~/'' \<and> UserHomeDir os = None \<longrightarrow> FilePath os source = ([], False)) \<and>
   (\<not> HasPrefix source ''file://'' \<and> expand_home os source = Some path \<and>
    make_abs os path = Some dir \<and> Stat os dir \<noteq> Some True \<longrightarrow>
      FilePath os source = ([], False)) \<and>
   (snd (FilePath os source) \<and> \<not> HasPrefix source ''file://'' \<longrightarrow>
      (\<exists>dir resolved. Stat os dir = Some True \<and> EvalSymlinks os dir = Some resolved \<and>
         FilePath os source = (''file://'' @ resolved, True))) \<and>
   (\<not> snd (FilePath os source) \<longrightarrow> FilePath os source = ([], False))"
proof (intro conjI impI)
  assume "HasPrefix source ''file://''"
  then have "source \<noteq> []" by (auto simp: HasPrefix_append)
  with \<open>HasPrefix source ''file://''\<close> show "FilePath os source = (source, True)"
    by (simp add: FilePath_def)
next
  assume "source \<noteq> [] \<and> \<not> HasPrefix source ''file://'' \<and> \<not> HasPrefix source ''~/'' \<and>
    IsAbs os source \<and> Stat os source = Some True \<and> EvalSymlinks os source = Some resolved"
  then show "FilePath os source = (''file://'' @ resolved, True)"
    by (simp add: FilePath_def expand_home_def make_abs_def)
next
  assume a: "HasPrefix source ''~/'' \<and> UserHomeDir os = Some home \<and>
    make_abs os (Join os home (drop 2 source)) = Some dir \<and>
    Stat os dir = Some True \<and> EvalSymlinks os dir = Some resolved"
  then have "expand_home os source = Some (Join os home (drop 2 source))"
    by (simp add: expand_home_def)
  with a HasPrefix_home_not_file [of source]
  show "FilePath os source = (''file://'' @ resolved, True)"
    by (simp add: FilePath_resolved)
next
  assume "source \<noteq> [] \<and> \<not> HasPrefix source ''file://'' \<and> \<not> HasPrefix source ''~/'' \<and>
    \<not> IsAbs os source \<and> Abs os source = Some dir \<and>
    Stat os dir = Some True \<and> EvalSymlinks os dir = Some resolved"
  then show "FilePath os source = (''file://'' @ resolved, True)"
    by (simp add: FilePath_def expand_home_def make_abs_def)
next
  assume a: "HasPrefix source ''~/'' \<and> UserHomeDir os = None"
  with HasPrefix_home_not_file [of source] show "FilePath os source = ([], False)"
    by (simp add: FilePath_def expand_home_def)
next
  assume "\<not> HasPrefix source ''file://'' \<and> expand_home os source = Some path \<and>
    make_abs os path = Some dir \<and> Stat os dir \<noteq> Some True"
  then show "FilePath os source = ([], False)"
    using FilePath_not_directory by blast
next
  assume "snd (FilePath os source) \<and> \<not> HasPrefix source ''file://''"
  then show "\<exists>dir resolved. Stat os dir = Some True \<and> EvalSymlinks os dir = Some resolved \<and>
         FilePath os source = (''file://'' @ resolved, True)"
    using FilePath_match_only by blast
next
  assume "\<not> snd (FilePath os source)"
  then show "FilePath os source = ([], False)"
    by (auto simp: FilePath_def split: option.splits if_splits)
qed

lemma example_os_eval:
  "UserHomeDir example_os = Some ''/home/u''"
  "Join example_os ''/home/u'' ''proj'' = ''/home/u/proj''"
  "IsAbs example_os ''/tmp/d''" "IsAbs example_os ''/tmp/f''" "IsAbs example_os ''/nonexistent''"
  "IsAbs example_os ''/home/u/proj''"
  "\<not> IsAbs example_os ''./sub''" "\<not> IsAbs example_os ''sub''"
  "Abs example_os ''./sub'' = Some ''/cwd/sub''" "Abs example_os ''sub'' = Some ''/cwd/sub''"
  "Stat example_os ''/tmp/d'' = Some True" "Stat example_os ''/home/u/proj'' = Some True"
  "Stat example_os ''/cwd/sub'' = Some True" "Stat example_os ''/tmp/f'' = Some False"
  "Stat example_os ''/nonexistent'' = None"
  "EvalSymlinks example_os ''/tmp/d'' = Some ''/private/tmp/d''"
  "EvalSymlinks example_os ''/home/u/proj'' = Some ''/home/u/proj''"
  "EvalSymlinks example_os ''/cwd/sub'' = Some ''/cwd/sub''"
  by (simp_all add: example_os_def HasPrefix_def)

theorem FilePath_mapper_witness:
  "HasPrefix ''file:///tmp/d'' ''file://'' \<and>
   FilePath example_os ''file:///tmp/d'' = (''file:///tmp/d'', True) \<and>
   IsAbs example_os ''/tmp/d'' \<and> Stat example_os ''/tmp/d'' = Some True \<and>
   EvalSymlinks example_os ''/tmp/d'' = Some ''/private/tmp/d'' \<and>
   FilePath example_os ''/tmp/d'' = (''file:///private/tmp/d'', True) \<and>
   HasPrefix ''~/proj'' ''~/'' \<and> UserHomeDir example_os = Some ''/home/u'' \<and>
   FilePath example_os ''~/proj'' = (''file:///home/u/proj'', True) \<and>
   Abs example_os ''./sub'' = Some ''/cwd/sub'' \<and> Stat example_os ''/cwd/sub'' = Some True \<and>
   FilePath example_os ''./sub'' = (''file:///cwd/sub'', True) \<and>
   FilePath example_os ''sub'' = (''file:///cwd/sub'', True) \<and>
   UserHomeDir (example_os\<lparr>UserHomeDir := None\<rparr>) = None \<and>
   FilePath (example_os\<lparr>UserHomeDir := None\<rparr>) ''~/proj'' = ([], False) \<and>
   Stat example_os ''/tmp/f'' = Some False \<and>
   FilePath example_os ''/tmp/f'' = ([], False) \<and>
   Stat example_os ''/nonexistent'' = None \<and>
   FilePath example_os ''/nonexistent'' = ([], False)"
proof -
  note t = FilePath_mapper
  note e = example_os_eval
  have p: "HasPrefix ''file:///tmp/d'' ''file://''" "HasPrefix ''~/proj'' ''~/''"
    "\<not> HasPrefix ''/tmp/d'' ''file://''" "\<not> HasPrefix ''/tmp/d'' ''~/''"
    "\<not> HasPrefix ''./sub'' ''file://''" "\<not> HasPrefix ''./sub'' ''~/''"
    "\<not> HasPrefix ''sub'' ''file://''" "\<not> HasPrefix ''sub'' ''~/''"
    "\<not> HasPrefix ''/tmp/f'' ''file://''" "\<not> HasPrefix ''/tmp/f'' ''~/''"
    "\<not> HasPrefix ''/nonexistent'' ''file://''" "\<not> HasPrefix ''/nonexistent'' ''~/''"
    by (simp_all add: HasPrefix_def)
  have 1: "FilePath example_os ''file:///tmp/d'' = (''file:///tmp/d'', True)"
    by (rule t [of "''file:///tmp/d''" example_os, THEN conjunct1, THEN mp]) (rule p(1))
  have 2: "FilePath example_os ''/tmp/d'' = (''file://'' @ ''/private/tmp/d'', True)"
    by (rule t [of "''/tmp/d''" example_os "''/private/tmp/d''",
          THEN conjunct2, THEN conjunct1, THEN mp]) (simp add: p e)
  have m: "make_abs example_os (Join example_os ''/home/u'' (drop 2 ''~/proj'')) = Some ''/home/u/proj''"
    using e by (simp add: make_abs_def)
  have 3: "FilePath example_os ''~/proj'' = (''file://'' @ ''/home/u/proj'', True)"
    by (rule t [of "''~/proj''" example_os "''/home/u/proj''" "''/home/u''" "''/home/u/proj''",
          THEN conjunct2, THEN conjunct2, THEN conjunct1, THEN mp]) (simp add: p e make_abs_def)
  have 4: "FilePath example_os ''./sub'' = (''file://'' @ ''/cwd/sub'', True)"
    by (rule t [of "''./sub''" example_os "''/cwd/sub''" _ "''/cwd/sub''",
          THEN conjunct2, THEN conjunct2, THEN conjunct2, THEN conjunct1, THEN mp])
       (simp add: p e)
  have 5: "FilePath example_os ''sub'' = (''file://'' @ ''/cwd/sub'', True)"
    by (rule t [of "''sub''" example_os "''/cwd/sub''" _ "''/cwd/sub''",
          THEN conjunct2, THEN conjunct2, THEN conjunct2, THEN conjunct1, THEN mp])
       (simp add: p e)
  have 6: "FilePath (example_os\<lparr>UserHomeDir := None\<rparr>) ''~/proj'' = ([], False)"
    by (rule t [of "''~/proj''" "example_os\<lparr>UserHomeDir := None\<rparr>",
          THEN conjunct2, THEN conjunct2, THEN conjunct2, THEN conjunct2, THEN conjunct1, THEN mp])
       (simp add: p)
  have x: "expand_home example_os ''/tmp/f'' = Some ''/tmp/f''"
    "make_abs example_os ''/tmp/f'' = Some ''/tmp/f''"
    "expand_home example_os ''/nonexistent'' = Some ''/nonexistent''"
    "make_abs example_os ''/nonexistent'' = Some ''/nonexistent''"
    using p e by (simp_all add: expand_home_def make_abs_def)
  have 7: "FilePath example_os ''/tmp/f'' = ([], False)"
    by (rule t [of "''/tmp/f''" example_os _ _ "''/tmp/f''" "''/tmp/f''",
          THEN conjunct2, THEN conjunct2, THEN conjunct2, THEN conjunct2, THEN conjunct2,
          THEN conjunct1, THEN mp])
       (simp add: p e x)
  have 8: "FilePath example_os ''/nonexistent'' = ([], False)"
    by (rule t [of "''/nonexistent''" example_os _ _ "''/nonexistent''" "''/nonexistent''",
          THEN conjunct2, THEN conjunct2, THEN conjunct2, THEN conjunct2, THEN conjunct2,
          THEN conjunct1, THEN mp])
       (simp add: p e x)
  have 9: "UserHomeDir (example_os\<lparr>UserHomeDir := None\<rparr>) = None" by simp
  from 1 2 3 4 5 6 7 8 9 p(1,2) e show ?thesis by simp
qed

section \<open>The TAR resolver in the default order\<close>

lemma Default_selection:
  "fst (match_source (resolvers (Default os)) u) =
     (if File_Match u then Some File else if Git_Match u then Some Git
      else if TAR_Match u then Some TAR else if ZIP_Match u then Some ZIP else None)"
  "fst (match_source (resolvers (Default2 os)) u) =
     (if File_Match u then Some File else if Git_Match_schemes u then Some Git2
      else if TAR_Match u then Some TAR else if ZIP_Match u then Some ZIP else None)"
  unfolding match_source_find by (simp_all add: Default_def Default2_def New_def)

lemma tar_extension_tar: "tar_extension ''.tar''"
  by (simp add: tar_extension_def)

text \<open>
  C10 (as amended).  \<open>TAR.Match\<close> is true if and only if the path of the URL contains,
  anywhere, a substring that is a tar extension: \<open>.tar\<close> optionally followed by a dot
  and lowercase letters, or \<open>.tbz\<close>, \<open>.tbz2\<close>, \<open>.txz\<close>, \<open>.tzstd\<close>, \<open>.tlz\<close>,
  \<open>.tZ\<close>, \<open>.tgz\<close>; so every path with \<open>.tar\<close> in it matches.  In the order of the
  default resolvers TAR precedes ZIP: such a URL is never dispatched to ZIP, and it is
  dispatched to TAR whenever the File and Git resolvers, which are consulted first, do
  not match it.  They may match it first, as the counterexample shows.
\<close>

theorem TAR_Match_contains:
  "(TAR_Match u \<longleftrightarrow> (\<exists>pre w post. Path u = pre @ w @ post \<and> tar_extension w)) \<and>
   (Path u = pre @ ''.tar'' @ post \<longrightarrow> TAR_Match u) \<and>
   (TAR_Match u \<longrightarrow>
      fst (match_source (resolvers (Default os)) u) \<noteq> Some ZIP \<and>
      fst (match_source (resolvers (Default2 os)) u) \<noteq> Some ZIP \<and>
      (\<not> File_Match u \<and> \<not> Git_Match u \<longrightarrow>
         fst (match_source (resolvers (Default os)) u) = Some TAR) \<and>
      (\<not> File_Match u \<and> \<not> Git_Match_schemes u \<longrightarrow>
         fst (match_source (resolvers (Default2 os)) u) = Some TAR))"
proof (intro conjI impI)
  show "TAR_Match u \<longleftrightarrow> (\<exists>pre w post. Path u = pre @ w @ post \<and> tar_extension w)"
    by (rule TAR_Match_iff)
next
  assume "Path u = pre @ ''.tar'' @ post"
  with tar_extension_tar show "TAR_Match u"
    unfolding TAR_Match_iff by blast
next
  assume "TAR_Match u"
  then show "fst (match_source (resolvers (Default os)) u) \<noteq> Some ZIP"
    by (simp add: Default_selection)
next
  assume "TAR_Match u"
  then show "fst (match_source (resolvers (Default2 os)) u) \<noteq> Some ZIP"
    by (simp add: Default_selection)
next
  assume "TAR_Match u" "\<not> File_Match u \<and> \<not> Git_Match u"
  then show "fst (match_source (resolvers (Default os)) u) = Some TAR"
    by (simp add: Default_selection)
next
  assume "TAR_Match u" "\<not> File_Match u \<and> \<not> Git_Match_schemes u"
  then show "fst (match_source (resolvers (Default2 os)) u) = Some TAR"
    by (simp add: Default_selection)
qed

theorem TAR_Match_contains_witness:
  "Path \<lparr>Scheme = ''https'', Opaque = [], User = None, Host = ''host'',
         Path = ''/a.tar/b.zip'', RawQuery = [], Fragment = []\<rparr> = ''/a'' @ ''.tar'' @ ''/b.zip'' \<and>
   TAR_Match \<lparr>Scheme = ''https'', Opaque = [], User = None, Host = ''host'',
         Path = ''/a.tar/b.zip'', RawQuery = [], Fragment = []\<rparr> \<and>
   ZIP_Match \<lparr>Scheme = ''https'', Opaque = [], User = None, Host = ''host'',
         Path = ''/a.tar/b.zip'', RawQuery = [], Fragment = []\<rparr> \<and>
   \<not> File_Match \<lparr>Scheme = ''https'', Opaque = [], User = None, Host = ''host'',
         Path = ''/a.tar/b.zip'', RawQuery = [], Fragment = []\<rparr> \<and>
   \<not> Git_Match \<lparr>Scheme = ''https'', Opaque = [], User = None, Host = ''host'',
         Path = ''/a.tar/b.zip'', RawQuery = [], Fragment = []\<rparr> \<and>
   \<not> Git_Match_schemes \<lparr>Scheme = ''https'', Opaque = [], User = None, Host = ''host'',
         Path = ''/a.tar/b.zip'', RawQuery = [], Fragment = []\<rparr> \<and>
   fst (match_source (resolvers (Default example_os))
     \<lparr>Scheme = ''https'', Opaque = [], User = None, Host = ''host'',
      Path = ''/a.tar/b.zip'', RawQuery = [], Fragment = []\<rparr>) = Some TAR \<and>
   fst (match_source (resolvers (Default2 example_os))
     \<lparr>Scheme = ''https'', Opaque = [], User = None, Host = ''host'',
      Path = ''/a.tar/b.zip'', RawQuery = [], Fragment = []\<rparr>) = Some TAR \<and>
   (\<exists>pre w post. ''/archive.tar.unknown'' = pre @ w @ post \<and> tar_extension w) \<and>
   TAR_Match \<lparr>Scheme = ''https'', Opaque = [], User = None, Host = ''host'',
         Path = ''/archive.tar.unknown'', RawQuery = [], Fragment = []\<rparr>"
proof -
  let ?u = "\<lparr>Scheme = ''https'', Opaque = [], User = None, Host = ''host'',
         Path = ''/a.tar/b.zip'', RawQuery = [], Fragment = []\<rparr>"
  let ?v = "\<lparr>Scheme = ''https'', Opaque = [], User = None, Host = ''host'',
         Path = ''/archive.tar.unknown'', RawQuery = [], Fragment = []\<rparr>"
  note t = TAR_Match_contains [of ?u "''/a''" "''/b.zip''" example_os]
  have p: "Path ?u = ''/a'' @ ''.tar'' @ ''/b.zip''" by simp
  with t have 1: "TAR_Match ?u" by blast
  have 2: "ZIP_Match ?u" "\<not> File_Match ?u" "\<not> Git_Match ?u" "\<not> Git_Match_schemes ?u"
    by (simp_all add: ZIP_Match_def HasSuffix_def File_Match_def Git_Match_def
        Git_Match_schemes_def)
  from t 1 2 have 3: "fst (match_source (resolvers (Default example_os)) ?u) = Some TAR"
    "fst (match_source (resolvers (Default2 example_os)) ?u) = Some TAR" by blast+
  have "tar_extension ''.tar.unknown''"
    by (simp add: tar_extension_def HasPrefix_def lower_letters_def in_class_def)
  then have 4: "\<exists>pre w post. ''/archive.tar.unknown'' = pre @ w @ post \<and> tar_extension w"
    by (intro exI [of _ "''/archive''"] exI [of _ "''.tar.unknown''"] exI [of _ "[]"]) simp
  then have 5: "TAR_Match ?v"
    using TAR_Match_contains [of ?v] by simp
  from p 1 2 3 4 5 show ?thesis by blast
qed

theorem TAR_Match_contains_counterexample:
  "TAR_Match \<lparr>Scheme = ''file'', Opaque = [], User = None, Host = [],
         Path = ''/archive.tar.unknown'', RawQuery = [], Fragment = []\<rparr> \<and>
   fst (match_source (resolvers (Default example_os))
     \<lparr>Scheme = ''file'', Opaque = [], User = None, Host = [],
      Path = ''/archive.tar.unknown'', RawQuery = [], Fragment = []\<rparr>) \<noteq> Some TAR"
proof -
  have "TAR_Match \<lparr>Scheme = ''file'', Opaque = [], User = None, Host = [],
         Path = ''/archive.tar.unknown'', RawQuery = [], Fragment = []\<rparr>"
    by (simp add: TAR_Match_def tarRe_def Opt_def Plus_def Lit_def in_class_def)
  then show ?thesis
    by (simp add: Default_selection File_Match_def)
qed

end
